theory Spec2Isabelle
  imports Complex_Main "HOL-Library.Word"
begin

unbundle bit_operations_syntax

section \<open>Sizes of the packed 4-bit weight layout\<close>

text \<open>
  A \<open>size_t\<close> is a 64-bit word; its arithmetic wraps modulo \<open>2^64\<close>. The size query
  below computes in that type. A count, stride or byte offset that sizes or indexes a buffer
  held in memory is a natural number: it is bounded by the length of that buffer. A
  \<open>std::byte\<close> is an 8-bit word. A buffer is a list, and a pointer into it is an offset.
\<close>

type_synonym size_t = "64 word"

type_synonym byte = "8 word"

text \<open>
  Modelled from the spec: the enumeration of compute types is declared in a header that is
  not part of the sources at hand; the spec names two compute modes.
\<close>

datatype MLAS_SQNBIT_GEMM_COMPUTE_TYPE = CompFp32 | CompInt8

text \<open>
  Modelled from the spec: \<open>MlasDivRoundup\<close> is declared in a header that is not part of
  the sources at hand; the spec gives the block count as \<open>ceil(K/BlkLen)\<close>. It is
  used on natural numbers and on \<open>size_t\<close>.
\<close>

definition MlasDivRoundup :: "'a::{plus,minus,one,divide} \<Rightarrow> 'a \<Rightarrow> 'a" where
  "MlasDivRoundup up down = (up + down - 1) div down"

text \<open>
  Modelled from the spec: \<open>MlasQNBitBlkDataSizeInBytes\<close> is declared in a header that is
  not part of the sources at hand; the spec gives the bytes of one block as
  \<open>BlkLen*4/8\<close>, two codes to a byte. It is used on natural numbers and on \<open>size_t\<close>.
\<close>

definition MlasQNBitBlkDataSizeInBytes :: "'a::{times,divide,numeral} \<Rightarrow> 'a \<Rightarrow> 'a" where
  "MlasQNBitBlkDataSizeInBytes BlkBitWidth BlkLen = BlkLen * BlkBitWidth div 8"

text \<open>
  Modelled from the spec: \<open>MlasQNBitZeroPointsForBlksSizeInBytes\<close> is declared in a
  header that is not part of the sources at hand; the spec packs one 4-bit zero-point per
  block, two to a byte.
\<close>

definition MlasQNBitZeroPointsForBlksSizeInBytes :: "nat \<Rightarrow> nat" where
  "MlasQNBitZeroPointsForBlksSizeInBytes BlkCount = MlasDivRoundup BlkCount (2::nat)"

definition SQ4BitGemmPackQuantBDataSize ::
  "size_t \<Rightarrow> size_t \<Rightarrow> size_t \<Rightarrow> MLAS_SQNBIT_GEMM_COMPUTE_TYPE \<Rightarrow> size_t" where
  "SQ4BitGemmPackQuantBDataSize N K BlkLen ComputeType =
     (let BlkBitWidth = 4;
          BlockCountK = MlasDivRoundup K BlkLen;
          PackedQuantBDataSize = N * BlockCountK * MlasQNBitBlkDataSizeInBytes BlkBitWidth BlkLen
      in PackedQuantBDataSize)"

section \<open>Packing of the quantized weights\<close>

text \<open>
  The loop over byte pairs of one sub-block. \<open>Q\<close> and \<open>P\<close> are the source and the
  destination buffer, \<open>q\<close> and \<open>p\<close> the offsets of the sub-block in them.
\<close>

function PackBytePairs ::
  "nat \<Rightarrow> nat \<Rightarrow> byte list \<Rightarrow> nat \<Rightarrow> nat \<Rightarrow> nat \<Rightarrow> byte list \<Rightarrow> byte list" where
  "PackBytePairs SubBlkBytePairCount SubBlkDataSize Q q p byte_pair_idx P =
     (if byte_pair_idx < SubBlkBytePairCount then
        let src0 = Q ! (q + byte_pair_idx);
            src1 = Q ! (q + byte_pair_idx + SubBlkDataSize div 2);
            dst0 = (src0 AND 0x0F) OR push_bit 4 (src1 AND 0x0F);
            dst1 = drop_bit 4 src0 OR push_bit 4 (drop_bit 4 src1)
        in PackBytePairs SubBlkBytePairCount SubBlkDataSize Q q p (byte_pair_idx + 1)
             (P[p + 2 * byte_pair_idx := dst0, p + 2 * byte_pair_idx + 1 := dst1])
      else P)"
  by pat_completeness auto
termination
  by (relation "measure (\<lambda>(c, s, Q, q, p, i, P). c - i)") auto

declare PackBytePairs.simps [simp del]

text \<open>
  The loop over the sub-blocks of one block. \<open>SubBlkLen\<close> is 16 or 32 in the caller; the
  loop stops at once for a step of 0, which the caller never passes.
\<close>

function PackSubBlks ::
  "nat \<Rightarrow> nat \<Rightarrow> byte list \<Rightarrow> nat \<Rightarrow> nat \<Rightarrow> nat \<Rightarrow> byte list \<Rightarrow> byte list" where
  "PackSubBlks BlkLen SubBlkLen Q q p kk P =
     (if kk < BlkLen \<and> 0 < SubBlkLen then
        let SubBlkDataSize = SubBlkLen div 2;
            SubBlkBytePairCount = SubBlkLen div 4;
            P' = PackBytePairs SubBlkBytePairCount SubBlkDataSize Q q p 0 P
        in PackSubBlks BlkLen SubBlkLen Q (q + SubBlkDataSize) (p + SubBlkDataSize)
             (kk + SubBlkLen) P'
      else P)"
  by pat_completeness auto
termination
  by (relation "measure (\<lambda>(b, s, Q, q, p, kk, P). b - kk)") auto

declare PackSubBlks.simps [simp del]

text \<open>The body of the parallel loop: one iteration packs the block \<open>tid\<close>.\<close>

definition PackBlock ::
  "nat \<Rightarrow> nat \<Rightarrow> nat \<Rightarrow> nat \<Rightarrow> byte list \<Rightarrow> nat \<Rightarrow> byte list \<Rightarrow> byte list" where
  "PackBlock BlockCountK BlkDataSize BlkLen SubBlkLen QuantBDataBegin tid PackedQuantBDataBegin =
     (let n = tid div BlockCountK;
          k_blk = tid mod BlockCountK;
          data_offset = n * BlockCountK * BlkDataSize + k_blk * BlkDataSize
      in PackSubBlks BlkLen SubBlkLen QuantBDataBegin data_offset data_offset 0
           PackedQuantBDataBegin)"

text \<open>
  \<open>SQ4BitGemmPackQuantBData\<close> returns the destination buffer after packing. The
  iterations handed to the thread pool write disjoint ranges of the destination and read
  only the source; the model runs them in the order of their index.
\<close>

definition SQ4BitGemmPackQuantBData ::
  "nat \<Rightarrow> nat \<Rightarrow> nat \<Rightarrow> MLAS_SQNBIT_GEMM_COMPUTE_TYPE \<Rightarrow> byte list \<Rightarrow> byte list \<Rightarrow> byte list" where
  "SQ4BitGemmPackQuantBData N K BlkLen ComputeType QuantBDataBegin PackedQuantBDataBegin =
     (let BlkBitWidth = 4;
          BlockCountK = MlasDivRoundup K BlkLen;
          BlkDataSize = MlasQNBitBlkDataSizeInBytes BlkBitWidth BlkLen;
          Iterations = N * BlockCountK;
          SubBlkLen = (if ComputeType = CompInt8 then (if BlkLen = 16 then 16 else 32) else 16)
      in fold (PackBlock BlockCountK BlkDataSize BlkLen SubBlkLen QuantBDataBegin)
           [0..<Iterations] PackedQuantBDataBegin)"

text \<open>
  Modelled from the spec: the inverse transform, \<open>Unpack\<close> in the spec, has no
  implementation in the sources at hand. It rebuilds each source byte from the two packed
  bytes that hold its nibbles: within a sub-block of \<open>SubBlkDataSize\<close> bytes, source
  byte \<open>r\<close> of the first half lies in the low nibbles of the packed bytes \<open>2r\<close> and
  \<open>2r+1\<close>, and source byte \<open>r\<close> of the second half in their high nibbles.
\<close>

definition UnpackByte :: "nat \<Rightarrow> byte list \<Rightarrow> nat \<Rightarrow> byte" where
  "UnpackByte SubBlkDataSize P j =
     (let base = (j div SubBlkDataSize) * SubBlkDataSize;
          r = j mod SubBlkDataSize
      in if r < SubBlkDataSize div 2
         then (P ! (base + 2 * r) AND 0x0F) OR push_bit 4 (P ! (base + 2 * r + 1) AND 0x0F)
         else let r' = r - SubBlkDataSize div 2
              in drop_bit 4 (P ! (base + 2 * r')) OR
                 push_bit 4 (drop_bit 4 (P ! (base + 2 * r' + 1))))"

definition SQ4BitGemmUnpackQuantBData ::
  "nat \<Rightarrow> nat \<Rightarrow> nat \<Rightarrow> MLAS_SQNBIT_GEMM_COMPUTE_TYPE \<Rightarrow> byte list \<Rightarrow> byte list" where
  "SQ4BitGemmUnpackQuantBData N K BlkLen ComputeType PackedQuantBData =
     (let SubBlkLen = (if ComputeType = CompInt8 then (if BlkLen = 16 then 16 else 32) else 16)
      in map (UnpackByte (SubBlkLen div 2) PackedQuantBData)
           [0..<N * MlasDivRoundup K BlkLen * MlasQNBitBlkDataSizeInBytes 4 BlkLen])"

text \<open>
  The 4-bit code at position \<open>i\<close> of a buffer in the source layout, as the comments of
  the packing function draw it: byte \<open>i div 2\<close>, low nibble for even \<open>i\<close>, high nibble
  for odd \<open>i\<close>. The codes of column \<open>n\<close> start at position \<open>n * BlockCountK * BlkLen\<close>.
\<close>

definition QuantBCode :: "byte list \<Rightarrow> nat \<Rightarrow> byte" where
  "QuantBCode X i = (if even i then X ! (i div 2) AND 0x0F else drop_bit 4 (X ! (i div 2)))"

text \<open>
  The 4-bit code at position \<open>i\<close> of a packed buffer, as the packing comments draw it
  and as the compute kernels read it: within a sub-block of \<open>SubBlkLen\<close> codes, code
  \<open>r\<close> of the first half is the low nibble of byte \<open>r\<close>, and code \<open>r\<close> of the second
  half is the high nibble of that byte.
\<close>

definition PackedQuantBByteIndex :: "nat \<Rightarrow> nat \<Rightarrow> nat" where
  "PackedQuantBByteIndex SubBlkLen i =
     (let SubBlkDataSize = SubBlkLen div 2;
          s = i div SubBlkLen;
          r = i mod SubBlkLen
      in s * SubBlkDataSize + r mod SubBlkDataSize)"

definition PackedQuantBCode :: "nat \<Rightarrow> byte list \<Rightarrow> nat \<Rightarrow> byte" where
  "PackedQuantBCode SubBlkLen P i =
     (let b = P ! PackedQuantBByteIndex SubBlkLen i
      in if i mod SubBlkLen < SubBlkLen div 2 then b AND 0x0F else drop_bit 4 b)"

text \<open>The sub-block length that the packing function chooses for a compute type.\<close>

definition PackSubBlkLen :: "MLAS_SQNBIT_GEMM_COMPUTE_TYPE \<Rightarrow> nat \<Rightarrow> nat" where
  "PackSubBlkLen ComputeType BlkLen =
     (if ComputeType = CompInt8 then (if BlkLen = 16 then 16 else 32) else 16)"

text \<open>
  The byte that packing stores at offset \<open>r\<close> of the sub-block that starts at \<open>q\<close>, and
  the byte it stores at offset \<open>j\<close> of the whole buffer.
\<close>

definition pack_byte :: "nat \<Rightarrow> byte list \<Rightarrow> nat \<Rightarrow> nat \<Rightarrow> byte" where
  "pack_byte SubBlkDataSize Q q r =
     (let src0 = Q ! (q + r div 2); src1 = Q ! (q + r div 2 + SubBlkDataSize div 2)
      in if even r then (src0 AND 0x0F) OR push_bit 4 (src1 AND 0x0F)
         else drop_bit 4 src0 OR push_bit 4 (drop_bit 4 src1))"

definition packed_at :: "nat \<Rightarrow> byte list \<Rightarrow> nat \<Rightarrow> byte" where
  "packed_at SubBlkDataSize Q j =
     pack_byte SubBlkDataSize Q ((j div SubBlkDataSize) * SubBlkDataSize) (j mod SubBlkDataSize)"

section \<open>Floating point and vector registers\<close>

text \<open>
  A \<open>float\<close> is modelled by the real number it denotes, and every floating-point
  operation by the exact operation on the reals: rounding to 24 bits, infinities and NaN
  are outside the model. A vector register is the list of its lanes, and an operation on
  registers is written lane by lane.
\<close>

type_synonym float32x4_t = "real list"
type_synonym int32x4_t = "32 word list"
type_synonym int8x16_t = "8 word list"

definition vld1q_f32 :: "real list \<Rightarrow> nat \<Rightarrow> float32x4_t" where
  "vld1q_f32 src p = map (\<lambda>l. src ! (p + l)) [0..<4]"

definition vsetq_lane_f32 :: "real \<Rightarrow> float32x4_t \<Rightarrow> nat \<Rightarrow> float32x4_t" where
  "vsetq_lane_f32 x v lane = v[lane := x]"

definition vdupq_n_f32 :: "real \<Rightarrow> float32x4_t" where
  "vdupq_n_f32 x = replicate 4 x"

definition vabsq_f32 :: "float32x4_t \<Rightarrow> float32x4_t" where
  "vabsq_f32 v = map (\<lambda>l. \<bar>v ! l\<bar>) [0..<4]"

definition vmaxq_f32 :: "float32x4_t \<Rightarrow> float32x4_t \<Rightarrow> float32x4_t" where
  "vmaxq_f32 a b = map (\<lambda>l. max (a ! l) (b ! l)) [0..<4]"

definition vmaxvq_f32 :: "float32x4_t \<Rightarrow> real" where
  "vmaxvq_f32 v = max (max (v ! 0) (v ! 1)) (max (v ! 2) (v ! 3))"

definition vmulq_n_f32 :: "float32x4_t \<Rightarrow> real \<Rightarrow> float32x4_t" where
  "vmulq_n_f32 v s = map (\<lambda>l. v ! l * s) [0..<4]"

text \<open>
  \<open>vcvtaq_s32_f32\<close> converts each lane to a signed 32-bit integer, rounding to the
  nearest integer with ties away from zero, and saturating at the ends of the range.
\<close>

definition round_ties_away :: "real \<Rightarrow> int" where
  "round_ties_away x = (if 0 \<le> x then \<lfloor>x + 1 / 2\<rfloor> else - \<lfloor>- x + 1 / 2\<rfloor>)"

definition vcvtas_s32_f32 :: "real \<Rightarrow> 32 word" where
  "vcvtas_s32_f32 x = word_of_int (max (- (2 ^ 31)) (min (2 ^ 31 - 1) (round_ties_away x)))"

definition vcvtaq_s32_f32 :: "float32x4_t \<Rightarrow> int32x4_t" where
  "vcvtaq_s32_f32 v = map (\<lambda>l. vcvtas_s32_f32 (v ! l)) [0..<4]"

definition vgetq_lane_s32 :: "int32x4_t \<Rightarrow> nat \<Rightarrow> 32 word" where
  "vgetq_lane_s32 v lane = v ! lane"

definition vdupq_n_s8 :: "8 word \<Rightarrow> int8x16_t" where
  "vdupq_n_s8 x = replicate 16 x"

text \<open>A store of the 16 lanes of a register at offset \<open>p\<close> of a buffer.\<close>

definition vst1q_s8 :: "8 word list \<Rightarrow> nat \<Rightarrow> int8x16_t \<Rightarrow> 8 word list" where
  "vst1q_s8 dst p v = fold (\<lambda>l d. d[p + l := v ! l]) [0..<16] dst"

text \<open>
  Division of floats, with the division by zero made visible: the result is \<open>Inl\<close>
  where the divisor is zero.
\<close>

datatype fp_exception = DivideByZero

definition fdiv :: "real \<Rightarrow> real \<Rightarrow> fp_exception + real" where
  "fdiv x y = (if y = 0 then Inl DivideByZero else Inr (x / y))"

section \<open>Loading floats into registers\<close>

text \<open>
  \<open>LoadFloatData\<close> fills the registers \<open>dst\<close> with \<open>count\<close> floats read at offset
  \<open>p\<close> of \<open>src\<close>; lanes beyond \<open>count\<close> keep what \<open>dst\<close> held. The first loop loads
  whole registers and returns the offset, the count and the register index it stops at.
\<close>

function LoadFloatData_whole ::
  "real list \<Rightarrow> nat \<Rightarrow> nat \<Rightarrow> nat \<Rightarrow> float32x4_t list \<Rightarrow> nat \<times> nat \<times> nat \<times> float32x4_t list" where
  "LoadFloatData_whole src p count vi dst =
     (if count > 3 then
        LoadFloatData_whole src (p + 4) (count - 4) (vi + 1) (dst[vi := vld1q_f32 src p])
      else (p, count, vi, dst))"
  by pat_completeness auto
termination
  by (relation "measure (\<lambda>(src, p, count, vi, dst). count)") auto

declare LoadFloatData_whole.simps [simp del]

definition LoadFloatData :: "real list \<Rightarrow> nat \<Rightarrow> nat \<Rightarrow> float32x4_t list \<Rightarrow> float32x4_t list" where
  "LoadFloatData src p0 count0 dst0 =
     (case LoadFloatData_whole src p0 count0 0 dst0 of (p, count, vi, dst) \<Rightarrow>
        if count > 0 then
          let dst1 = dst[vi := vsetq_lane_f32 (src ! p) (dst ! vi) 0]
          in if count > 1 then
               let dst2 = dst1[vi := vsetq_lane_f32 (src ! (p + 1)) (dst1 ! vi) 1]
               in if count > 2 then
                    dst2[vi := vsetq_lane_f32 (src ! (p + 2)) (dst2 ! vi) 2]
                  else dst2
             else dst1
        else dst)"

section \<open>Quantization of a row of A to 8-bit blocks\<close>

text \<open>
  Modelled from the spec: the layout of a quantized block of A is declared in a header
  that is not part of the sources at hand. By the spec a block holds a float scale, placed
  before the block's \<open>BlkLen\<close> signed 8-bit codes. The workspace is a list of such blocks,
  and a pointer to a block is its index: \<open>Q8BlkSize(BlkLen)\<close> bytes further is one block
  further.
\<close>

record Q8Blk =
  Q8BlkScale :: real
  Q8BlkData :: "8 word list"

text \<open>The registers of a zero-initialised array \<open>float32x4_t a[n]{}\<close>.\<close>

definition zero_f32x4 :: "nat \<Rightarrow> float32x4_t list" where
  "zero_f32x4 n = replicate n (replicate 4 0)"

text \<open>The reduction of the registers of a sub-block to the register of their maxima.\<close>

function amax_reduce :: "nat \<Rightarrow> float32x4_t list \<Rightarrow> float32x4_t list" where
  "amax_reduce interval abs_a =
     (if interval > 0 then
        amax_reduce (interval div 2)
          (fold (\<lambda>i abs_a. abs_a[i := vmaxq_f32 (abs_a ! i) (abs_a ! (i + interval))])
             [0..<interval] abs_a)
      else abs_a)"
  by pat_completeness auto
termination
  by (relation "measure (\<lambda>(interval, abs_a). interval)") auto

declare amax_reduce.simps [simp del]

text \<open>
  The first loop of \<open>QuantizeBlock\<close>: the maximum of the absolute values. \<open>SubBlkLen\<close>
  is the template parameter, at least 16 by the static assertion; the loops stop at once
  for a step of 0.
\<close>

function QuantizeBlock_amax :: "nat \<Rightarrow> real list \<Rightarrow> nat \<Rightarrow> nat \<Rightarrow> nat \<Rightarrow> real \<Rightarrow> real" where
  "QuantizeBlock_amax SubBlkLen A a ElementCount k amax =
     (if k < ElementCount \<and> 0 < SubBlkLen then
        let SubBlkElementCount = min (ElementCount - k) SubBlkLen;
            av = LoadFloatData A (a + k) SubBlkElementCount (zero_f32x4 (SubBlkLen div 4));
            abs_a = map (\<lambda>i. vabsq_f32 (av ! i)) [0..<SubBlkLen div 4];
            abs_a = amax_reduce (SubBlkLen div 4 div 2) abs_a
        in QuantizeBlock_amax SubBlkLen A a ElementCount (k + SubBlkLen)
             (max amax (vmaxvq_f32 (abs_a ! 0)))
      else amax)"
  by pat_completeness auto
termination
  by (relation "measure (\<lambda>(s, A, a, n, k, amax). n - k)") auto

declare QuantizeBlock_amax.simps [simp del]

text \<open>
  The body of the second loop: the codes of the sub-block at index \<open>k\<close> of the block.
\<close>

definition QuantizeBlock_subblk ::
  "nat \<Rightarrow> real list \<Rightarrow> nat \<Rightarrow> nat \<Rightarrow> real \<Rightarrow> nat \<Rightarrow> 8 word list \<Rightarrow> 8 word list" where
  "QuantizeBlock_subblk SubBlkLen A a ElementCount scale_reciprocal k QuantAData =
     (let SubBlkElementCount = min (ElementCount - k) SubBlkLen;
          av = LoadFloatData A (a + k) SubBlkElementCount (zero_f32x4 (SubBlkLen div 4));
          av = map (\<lambda>i. vmulq_n_f32 (av ! i) scale_reciprocal) [0..<SubBlkLen div 4];
          a_s32 = map (\<lambda>i. vcvtaq_s32_f32 (av ! i)) [0..<SubBlkLen div 4]
      in fold (\<lambda>i Q.
                Q[k + i * 4 + 0 := ucast (vgetq_lane_s32 (a_s32 ! i) 0),
                  k + i * 4 + 1 := ucast (vgetq_lane_s32 (a_s32 ! i) 1),
                  k + i * 4 + 2 := ucast (vgetq_lane_s32 (a_s32 ! i) 2),
                  k + i * 4 + 3 := ucast (vgetq_lane_s32 (a_s32 ! i) 3)])
              [0..<SubBlkLen div 4] QuantAData)"

text \<open>
  The second loop. It returns the index \<open>k\<close> it stops at, where the third loop goes on.
\<close>

function QuantizeBlock_codes ::
  "nat \<Rightarrow> real list \<Rightarrow> nat \<Rightarrow> nat \<Rightarrow> real \<Rightarrow> nat \<Rightarrow> 8 word list \<Rightarrow> nat \<times> 8 word list" where
  "QuantizeBlock_codes SubBlkLen A a ElementCount scale_reciprocal k QuantAData =
     (if k < ElementCount \<and> 0 < SubBlkLen then
        QuantizeBlock_codes SubBlkLen A a ElementCount scale_reciprocal (k + SubBlkLen)
          (QuantizeBlock_subblk SubBlkLen A a ElementCount scale_reciprocal k QuantAData)
      else (k, QuantAData))"
  by pat_completeness auto
termination
  by (relation "measure (\<lambda>(s, A, a, n, r, k, Q). n - k)") auto

declare QuantizeBlock_codes.simps [simp del]

text \<open>The body of the third loop: zeros in the sub-block at index \<open>k\<close>.\<close>

definition QuantizeBlock_zero_subblk :: "nat \<Rightarrow> nat \<Rightarrow> 8 word list \<Rightarrow> 8 word list" where
  "QuantizeBlock_zero_subblk SubBlkLen k QuantAData =
     (let Zeros = vdupq_n_s8 0
      in fold (\<lambda>i Q. vst1q_s8 Q (k + i * 16) Zeros) [0..<SubBlkLen div 16] QuantAData)"

text \<open>The third loop: zeros in the sub-blocks that are left.\<close>

function QuantizeBlock_zeros :: "nat \<Rightarrow> nat \<Rightarrow> nat \<Rightarrow> 8 word list \<Rightarrow> 8 word list" where
  "QuantizeBlock_zeros SubBlkLen BlkLen k QuantAData =
     (if k < BlkLen \<and> 0 < SubBlkLen then
        QuantizeBlock_zeros SubBlkLen BlkLen (k + SubBlkLen)
          (QuantizeBlock_zero_subblk SubBlkLen k QuantAData)
      else QuantAData)"
  by pat_completeness auto
termination
  by (relation "measure (\<lambda>(s, b, k, Q). b - k)") auto

declare QuantizeBlock_zeros.simps [simp del]

text \<open>
  \<open>QuantizeBlock\<close> quantizes the \<open>ElementCount\<close> floats at offset \<open>a\<close> of \<open>A\<close> into
  the block at index \<open>q\<close> of the workspace, and returns the workspace.
\<close>

definition QuantizeBlock ::
  "nat \<Rightarrow> nat \<Rightarrow> real list \<Rightarrow> nat \<Rightarrow> nat \<Rightarrow> Q8Blk list \<Rightarrow> nat \<Rightarrow> fp_exception + Q8Blk list" where
  "QuantizeBlock SubBlkLen BlkLen A a ElementCount QuantA q =
     (let amax = QuantizeBlock_amax SubBlkLen A a ElementCount 0 0;
          range_max = (2 ^ 7 - 1 :: real)
      in case fdiv amax range_max of
           Inl e \<Rightarrow> Inl e
         | Inr scale \<Rightarrow>
             (case (if scale \<noteq> 0 then fdiv 1 scale else Inr 0) of
                Inl e \<Rightarrow> Inl e
              | Inr scale_reciprocal \<Rightarrow>
                  (let QuantA = QuantA[q := (QuantA ! q)\<lparr>Q8BlkScale := scale\<rparr>];
                       QuantAData = Q8BlkData (QuantA ! q);
                       (k, QuantAData) =
                          QuantizeBlock_codes SubBlkLen A a ElementCount scale_reciprocal 0
                            QuantAData;
                       QuantAData = QuantizeBlock_zeros SubBlkLen BlkLen k QuantAData
                   in Inr (QuantA[q := (QuantA ! q)\<lparr>Q8BlkData := QuantAData\<rparr>]))))"

text \<open>The loop of \<open>QuantizeARow_CompInt8\<close> over the blocks of the row.\<close>

function QuantizeARow_blocks ::
  "nat \<Rightarrow> real list \<Rightarrow> nat \<Rightarrow> nat \<Rightarrow> nat \<Rightarrow> Q8Blk list \<Rightarrow> nat \<Rightarrow> fp_exception + Q8Blk list" where
  "QuantizeARow_blocks BlkLen A CountK k ADataBlkPtr QuantA QuantABlkPtr =
     (if k < CountK \<and> 0 < BlkLen then
        let k_blk_len = min (CountK - k) BlkLen
        in case QuantizeBlock 16 BlkLen A ADataBlkPtr k_blk_len QuantA QuantABlkPtr of
             Inl e \<Rightarrow> Inl e
           | Inr QuantA \<Rightarrow>
               QuantizeARow_blocks BlkLen A CountK (k + BlkLen) (ADataBlkPtr + BlkLen)
                 QuantA (QuantABlkPtr + 1)
      else Inr QuantA)"
  by pat_completeness auto
termination
  by (relation "measure (\<lambda>(b, A, n, k, p, Q, q). n - k)") auto

declare QuantizeARow_blocks.simps [simp del]

definition QuantizeARow_CompInt8 ::
  "nat \<Rightarrow> real list \<Rightarrow> nat \<Rightarrow> Q8Blk list \<Rightarrow> fp_exception + Q8Blk list" where
  "QuantizeARow_CompInt8 BlkLen A CountK QuantA = QuantizeARow_blocks BlkLen A CountK 0 0 QuantA 0"

text \<open>
  The float that a padded load of \<open>cnt\<close> elements at offset \<open>p\<close> puts at position
  \<open>t\<close> of its registers.
\<close>

definition padded :: "real list \<Rightarrow> nat \<Rightarrow> nat \<Rightarrow> nat \<Rightarrow> real" where
  "padded A p cnt t = (if t < cnt then A ! (p + t) else 0)"

text \<open>The largest absolute value among the first \<open>n\<close> floats at offset \<open>a\<close>, or 0 for none.\<close>

definition amax_of :: "real list \<Rightarrow> nat \<Rightarrow> nat \<Rightarrow> real" where
  "amax_of A a n = Max (insert 0 ((\<lambda>t. \<bar>A ! (a + t)\<bar>) ` {..<n}))"

text \<open>
  The code that the second loop stores for a scaled float: the conversion of
  \<open>vcvtaq_s32_f32\<close>, then the cast of the 32-bit integer to \<open>int8_t\<close>.
\<close>

definition Q8Code :: "real \<Rightarrow> 8 word" where
  "Q8Code x = ucast (vcvtas_s32_f32 x)"

text \<open>
  The block that quantization is to produce from the first \<open>n\<close> floats at offset \<open>a\<close>:
  the scale, the reciprocal used for the codes, and the \<open>BlkLen\<close> codes.
\<close>

definition Q8Scale :: "real list \<Rightarrow> nat \<Rightarrow> nat \<Rightarrow> real" where
  "Q8Scale A a n = amax_of A a n / 127"

definition Q8ScaleReciprocal :: "real list \<Rightarrow> nat \<Rightarrow> nat \<Rightarrow> real" where
  "Q8ScaleReciprocal A a n = (if Q8Scale A a n \<noteq> 0 then 1 / Q8Scale A a n else 0)"

definition Q8Quantized :: "nat \<Rightarrow> real list \<Rightarrow> nat \<Rightarrow> nat \<Rightarrow> Q8Blk" where
  "Q8Quantized BlkLen A a n =
     \<lparr>Q8BlkScale = Q8Scale A a n,
      Q8BlkData = map (\<lambda>j. Q8Code (padded A a n j * Q8ScaleReciprocal A a n)) [0..<BlkLen]\<rparr>"

section \<open>Vector operations of the integer kernels\<close>

type_synonym uint8x8_t = "8 word list"
type_synonym uint8x16_t = "8 word list"

definition vld1q_s8 :: "8 word list \<Rightarrow> nat \<Rightarrow> int8x16_t" where
  "vld1q_s8 src p = map (\<lambda>l. src ! (p + l)) [0..<16]"

definition vld1_u8 :: "byte list \<Rightarrow> nat \<Rightarrow> uint8x8_t" where
  "vld1_u8 src p = map (\<lambda>l. src ! (p + l)) [0..<8]"

definition vld1q_u8 :: "byte list \<Rightarrow> nat \<Rightarrow> uint8x16_t" where
  "vld1q_u8 src p = map (\<lambda>l. src ! (p + l)) [0..<16]"

definition vdup_n_u8 :: "byte \<Rightarrow> uint8x8_t" where
  "vdup_n_u8 x = replicate 8 x"

definition vdupq_n_u8 :: "byte \<Rightarrow> uint8x16_t" where
  "vdupq_n_u8 x = replicate 16 x"

definition vand_u8 :: "uint8x8_t \<Rightarrow> uint8x8_t \<Rightarrow> uint8x8_t" where
  "vand_u8 a b = map (\<lambda>l. a ! l AND b ! l) [0..<8]"

definition vandq_u8 :: "uint8x16_t \<Rightarrow> uint8x16_t \<Rightarrow> uint8x16_t" where
  "vandq_u8 a b = map (\<lambda>l. a ! l AND b ! l) [0..<16]"

definition vshr_n_u8 :: "uint8x8_t \<Rightarrow> nat \<Rightarrow> uint8x8_t" where
  "vshr_n_u8 a n = map (\<lambda>l. drop_bit n (a ! l)) [0..<8]"

definition vshrq_n_u8 :: "uint8x16_t \<Rightarrow> nat \<Rightarrow> uint8x16_t" where
  "vshrq_n_u8 a n = map (\<lambda>l. drop_bit n (a ! l)) [0..<16]"

definition vcombine_u8 :: "uint8x8_t \<Rightarrow> uint8x8_t \<Rightarrow> uint8x16_t" where
  "vcombine_u8 lo hi = map (\<lambda>l. if l < 8 then lo ! l else hi ! (l - 8)) [0..<16]"

definition vget_low_u8 :: "uint8x16_t \<Rightarrow> uint8x8_t" where
  "vget_low_u8 v = map (\<lambda>l. v ! l) [0..<8]"

definition vget_high_u8 :: "uint8x16_t \<Rightarrow> uint8x8_t" where
  "vget_high_u8 v = map (\<lambda>l. v ! (l + 8)) [0..<8]"

definition vreinterpretq_s8_u8 :: "uint8x16_t \<Rightarrow> int8x16_t" where
  "vreinterpretq_s8_u8 v = v"

definition vsubq_s8 :: "int8x16_t \<Rightarrow> int8x16_t \<Rightarrow> int8x16_t" where
  "vsubq_s8 a b = map (\<lambda>l. a ! l - b ! l) [0..<16]"

definition vdupq_n_s32 :: "32 word \<Rightarrow> int32x4_t" where
  "vdupq_n_s32 x = replicate 4 x"

text \<open>
  \<open>vdotq_s32\<close>: each 32-bit lane gains the sum of the four products of the signed bytes
  of its group.
\<close>

definition vdotq_s32 :: "int32x4_t \<Rightarrow> int8x16_t \<Rightarrow> int8x16_t \<Rightarrow> int32x4_t" where
  "vdotq_s32 r a b =
     map (\<lambda>l. r ! l + scast (a ! (4 * l)) * scast (b ! (4 * l))
                     + scast (a ! (4 * l + 1)) * scast (b ! (4 * l + 1))
                     + scast (a ! (4 * l + 2)) * scast (b ! (4 * l + 2))
                     + scast (a ! (4 * l + 3)) * scast (b ! (4 * l + 3))) [0..<4]"

definition vcvtq_f32_s32 :: "int32x4_t \<Rightarrow> float32x4_t" where
  "vcvtq_f32_s32 v = map (\<lambda>l. real_of_int (sint (v ! l))) [0..<4]"

definition vfmaq_f32 :: "float32x4_t \<Rightarrow> float32x4_t \<Rightarrow> float32x4_t \<Rightarrow> float32x4_t" where
  "vfmaq_f32 a b c = map (\<lambda>l. a ! l + b ! l * c ! l) [0..<4]"

definition vaddq_f32 :: "float32x4_t \<Rightarrow> float32x4_t \<Rightarrow> float32x4_t" where
  "vaddq_f32 a b = map (\<lambda>l. a ! l + b ! l) [0..<4]"

definition vaddvq_f32 :: "float32x4_t \<Rightarrow> real" where
  "vaddvq_f32 v = (v ! 0 + v ! 1) + (v ! 2 + v ! 3)"

section \<open>The integer kernels: tiles\<close>

text \<open>
  The buffers that a kernel reads of B, \<open>QuantBData\<close>, \<open>QuantBScale\<close>,
  \<open>QuantBZeroPoint\<close> and \<open>Bias\<close>, and for the integer kernel \<open>QuantA\<close>. A pointer into one of them is
  an offset; a pointer into \<open>QuantA\<close> counts blocks, so that the stride between two rows,
  \<open>BlockCountK * Q8BlkSize(BlkLen)\<close> bytes, is \<open>BlockCountK\<close>. The zero-point buffer is
  read only where \<open>HasZeroPoint\<close> holds, and \<open>Bias\<close> only through a bias pointer other
  than \<open>None\<close>, the null pointer.
\<close>

record QuantB_Buffers =
  QuantBDataBuf :: "byte list"
  QuantBScaleBuf :: "real list"
  QuantBZeroPointBuf :: "byte list"
  BiasBuf :: "real list"

record CompInt8_Buffers = QuantB_Buffers +
  QuantABuf :: "Q8Blk list"

text \<open>The stores that end a tile of one element and a tile of two rows and two columns.\<close>

definition StoreSum1x1 ::
  "CompInt8_Buffers \<Rightarrow> nat option \<Rightarrow> real list \<Rightarrow> nat \<Rightarrow> real \<Rightarrow> real list" where
  "StoreSum1x1 M BiasPtr C SumPtr s =
     (let C = C[SumPtr := s]
      in case BiasPtr of
           None \<Rightarrow> C
         | Some b \<Rightarrow> C[SumPtr := C ! SumPtr + BiasBuf M ! b])"

definition StoreSum2x2 ::
  "CompInt8_Buffers \<Rightarrow> nat option \<Rightarrow> real list \<Rightarrow> nat \<Rightarrow> nat \<Rightarrow>
   real \<times> real \<times> real \<times> real \<Rightarrow> real list" where
  "StoreSum2x2 M BiasPtr C SumPtr ldc s =
     (case s of (s00, s01, s10, s11) \<Rightarrow>
        let C = C[SumPtr + 0 := s00];
            C = C[SumPtr + 1 := s01];
            C = C[SumPtr + ldc + 0 := s10];
            C = C[SumPtr + ldc + 1 := s11]
        in case BiasPtr of
             None \<Rightarrow> C
           | Some b \<Rightarrow>
               let C = C[SumPtr + 0 := C ! (SumPtr + 0) + BiasBuf M ! (b + 0)];
                   C = C[SumPtr + 1 := C ! (SumPtr + 1) + BiasBuf M ! (b + 1)];
                   C = C[SumPtr + ldc + 0 := C ! (SumPtr + ldc + 0) + BiasBuf M ! (b + 0)];
                   C = C[SumPtr + ldc + 1 := C ! (SumPtr + ldc + 1) + BiasBuf M ! (b + 1)]
               in C)"

text \<open>The zero-point of a block in a tile of two columns: the nibble by the parity of the block.\<close>

definition LoadZeroPoint2x2 :: "bool \<Rightarrow> CompInt8_Buffers \<Rightarrow> nat \<Rightarrow> nat \<Rightarrow> 8 word" where
  "LoadZeroPoint2x2 HasZeroPoint M QuantBZeroPointPtr k_blk_idx =
     (if HasZeroPoint then
        let QuantBZeroPointByte = QuantBZeroPointBuf M ! QuantBZeroPointPtr
        in if even k_blk_idx then QuantBZeroPointByte AND 0x0F
           else drop_bit 4 QuantBZeroPointByte
      else 8)"

text \<open>
  \<open>SQ4BitGemm_CompInt8_Compute2x2_BlkLen16\<close>: the body of the loop over the blocks. The
  state is the four pointers and the four accumulators.
\<close>

type_synonym acc2x2 = "nat \<times> nat \<times> nat \<times> nat \<times> float32x4_t \<times> float32x4_t \<times> float32x4_t \<times> float32x4_t"

definition Compute2x2_BlkLen16_blk ::
  "bool \<Rightarrow> CompInt8_Buffers \<Rightarrow> nat \<Rightarrow> nat \<Rightarrow> nat \<Rightarrow> nat \<Rightarrow> nat \<Rightarrow> acc2x2 \<Rightarrow> acc2x2" where
  "Compute2x2_BlkLen16_blk HasZeroPoint M StrideQuantA StrideQuantBData StrideQuantBScale
     StrideQuantBZeroPoint k_blk_idx st =
     (case st of (QuantAPtr, QuantBDataPtr, QuantBScalePtr, QuantBZeroPointPtr,
                  acc00, acc01, acc10, acc11) \<Rightarrow>
        let QuantABlkRow0 = QuantAPtr;
            QuantABlkRow1 = QuantAPtr + StrideQuantA;
            QuantBScaleCol0 = QuantBScaleBuf M ! QuantBScalePtr;
            QuantBScaleCol1 = QuantBScaleBuf M ! (QuantBScalePtr + StrideQuantBScale);
            scale00 = Q8BlkScale (QuantABuf M ! QuantABlkRow0) * QuantBScaleCol0;
            scale01 = Q8BlkScale (QuantABuf M ! QuantABlkRow0) * QuantBScaleCol1;
            scale10 = Q8BlkScale (QuantABuf M ! QuantABlkRow1) * QuantBScaleCol0;
            scale11 = Q8BlkScale (QuantABuf M ! QuantABlkRow1) * QuantBScaleCol1;
            bzp_col0 = LoadZeroPoint2x2 HasZeroPoint M QuantBZeroPointPtr k_blk_idx;
            bzp_col1 = LoadZeroPoint2x2 HasZeroPoint M (QuantBZeroPointPtr + StrideQuantBZeroPoint)
                         k_blk_idx;
            QuantADataPtrRow0 = Q8BlkData (QuantABuf M ! QuantABlkRow0);
            QuantADataPtrRow1 = Q8BlkData (QuantABuf M ! QuantABlkRow1);
            av_row0 = vld1q_s8 QuantADataPtrRow0 0;
            av_row1 = vld1q_s8 QuantADataPtrRow1 0;
            bv_packed_col0 = vld1_u8 (QuantBDataBuf M) QuantBDataPtr;
            bv_packed_col1 = vld1_u8 (QuantBDataBuf M) (QuantBDataPtr + StrideQuantBData);
            LowMaskU8x8 = vdup_n_u8 0x0F;
            bv_col0 = vreinterpretq_s8_u8
                        (vcombine_u8 (vand_u8 bv_packed_col0 LowMaskU8x8) (vshr_n_u8 bv_packed_col0 4));
            bv_col1 = vreinterpretq_s8_u8
                        (vcombine_u8 (vand_u8 bv_packed_col1 LowMaskU8x8) (vshr_n_u8 bv_packed_col1 4));
            bv_col0 = vsubq_s8 bv_col0 (vdupq_n_s8 bzp_col0);
            bv_col1 = vsubq_s8 bv_col1 (vdupq_n_s8 bzp_col1);
            dot00 = vdotq_s32 (vdupq_n_s32 0) av_row0 bv_col0;
            dot01 = vdotq_s32 (vdupq_n_s32 0) av_row0 bv_col1;
            dot10 = vdotq_s32 (vdupq_n_s32 0) av_row1 bv_col0;
            dot11 = vdotq_s32 (vdupq_n_s32 0) av_row1 bv_col1;
            acc00 = vfmaq_f32 acc00 (vcvtq_f32_s32 dot00) (vdupq_n_f32 scale00);
            acc01 = vfmaq_f32 acc01 (vcvtq_f32_s32 dot01) (vdupq_n_f32 scale01);
            acc10 = vfmaq_f32 acc10 (vcvtq_f32_s32 dot10) (vdupq_n_f32 scale10);
            acc11 = vfmaq_f32 acc11 (vcvtq_f32_s32 dot11) (vdupq_n_f32 scale11)
        in (QuantAPtr + 1, QuantBDataPtr + 8, QuantBScalePtr + 1,
            (if HasZeroPoint then QuantBZeroPointPtr + (if even k_blk_idx then 0 else 1)
             else QuantBZeroPointPtr),
            acc00, acc01, acc10, acc11))"

definition SQ4BitGemm_CompInt8_Compute2x2_BlkLen16 ::
  "bool \<Rightarrow> CompInt8_Buffers \<Rightarrow> nat \<Rightarrow> nat \<Rightarrow> nat \<Rightarrow> nat \<Rightarrow> nat option \<Rightarrow> real list \<Rightarrow> nat \<Rightarrow>
   nat \<Rightarrow> nat \<Rightarrow> nat \<Rightarrow> nat \<Rightarrow> nat \<Rightarrow> nat \<Rightarrow> real list" where
  "SQ4BitGemm_CompInt8_Compute2x2_BlkLen16 HasZeroPoint M QuantARowPtr QuantBDataColPtr
     QuantBScaleColPtr QuantBZeroPointColPtr BiasPtr C SumPtr BlockCountK StrideQuantA
     StrideQuantBData StrideQuantBScale StrideQuantBZeroPoint ldc =
     (case fold (Compute2x2_BlkLen16_blk HasZeroPoint M StrideQuantA StrideQuantBData
                   StrideQuantBScale StrideQuantBZeroPoint) [0..<BlockCountK]
             (QuantARowPtr, QuantBDataColPtr, QuantBScaleColPtr, QuantBZeroPointColPtr,
              replicate 4 0, replicate 4 0, replicate 4 0, replicate 4 0)
      of (QuantAPtr, QuantBDataPtr, QuantBScalePtr, QuantBZeroPointPtr,
          acc00, acc01, acc10, acc11) \<Rightarrow>
        StoreSum2x2 M BiasPtr C SumPtr ldc
          (vaddvq_f32 acc00, vaddvq_f32 acc01, vaddvq_f32 acc10, vaddvq_f32 acc11))"

text \<open>
  \<open>SQ4BitGemm_CompInt8_Compute2x2_BlkLenGreaterThan16\<close>: the body of the loop over the
  sub-blocks of 32 codes. The pointers into the codes of the two blocks of A are offsets
  into the codes of the blocks \<open>QuantABlkRow0\<close> and \<open>QuantABlkRow1\<close>.
\<close>

type_synonym subacc2x2 = "nat \<times> nat \<times> nat \<times> float32x4_t \<times> float32x4_t \<times> float32x4_t \<times> float32x4_t"

definition Compute2x2_BlkLenGreaterThan16_subblk ::
  "CompInt8_Buffers \<Rightarrow> nat \<Rightarrow> nat \<Rightarrow> nat \<Rightarrow> 8 word \<Rightarrow> 8 word \<Rightarrow> real \<Rightarrow> real \<Rightarrow> real \<Rightarrow> real \<Rightarrow>
   nat \<Rightarrow> subacc2x2 \<Rightarrow> subacc2x2" where
  "Compute2x2_BlkLenGreaterThan16_subblk M StrideQuantBData QuantABlkRow0 QuantABlkRow1
     bzp_col0 bzp_col1 scale00 scale01 scale10 scale11 sub_blk_idx st =
     (case st of (QuantADataPtrRow0, QuantADataPtrRow1, QuantBDataPtr,
                  acc00, acc01, acc10, acc11) \<Rightarrow>
        let av_row0_0 = vld1q_s8 (Q8BlkData (QuantABuf M ! QuantABlkRow0)) (QuantADataPtrRow0 + 0);
            av_row0_1 = vld1q_s8 (Q8BlkData (QuantABuf M ! QuantABlkRow0)) (QuantADataPtrRow0 + 16);
            av_row1_0 = vld1q_s8 (Q8BlkData (QuantABuf M ! QuantABlkRow1)) (QuantADataPtrRow1 + 0);
            av_row1_1 = vld1q_s8 (Q8BlkData (QuantABuf M ! QuantABlkRow1)) (QuantADataPtrRow1 + 16);
            bv_packed_col0 = vld1q_u8 (QuantBDataBuf M) QuantBDataPtr;
            bv_packed_col1 = vld1q_u8 (QuantBDataBuf M) (QuantBDataPtr + StrideQuantBData);
            LowMaskU8x16 = vdupq_n_u8 0x0F;
            bv_col0_0 = vreinterpretq_s8_u8 (vandq_u8 bv_packed_col0 LowMaskU8x16);
            bv_col0_1 = vreinterpretq_s8_u8 (vshrq_n_u8 bv_packed_col0 4);
            bv_col1_0 = vreinterpretq_s8_u8 (vandq_u8 bv_packed_col1 LowMaskU8x16);
            bv_col1_1 = vreinterpretq_s8_u8 (vshrq_n_u8 bv_packed_col1 4);
            bv_col0_0 = vsubq_s8 bv_col0_0 (vdupq_n_s8 bzp_col0);
            bv_col0_1 = vsubq_s8 bv_col0_1 (vdupq_n_s8 bzp_col0);
            bv_col1_0 = vsubq_s8 bv_col1_0 (vdupq_n_s8 bzp_col1);
            bv_col1_1 = vsubq_s8 bv_col1_1 (vdupq_n_s8 bzp_col1);
            dot00 = vdotq_s32 (vdotq_s32 (vdupq_n_s32 0) av_row0_0 bv_col0_0) av_row0_1 bv_col0_1;
            dot01 = vdotq_s32 (vdotq_s32 (vdupq_n_s32 0) av_row0_0 bv_col1_0) av_row0_1 bv_col1_1;
            dot10 = vdotq_s32 (vdotq_s32 (vdupq_n_s32 0) av_row1_0 bv_col0_0) av_row1_1 bv_col0_1;
            dot11 = vdotq_s32 (vdotq_s32 (vdupq_n_s32 0) av_row1_0 bv_col1_0) av_row1_1 bv_col1_1;
            acc00 = vfmaq_f32 acc00 (vcvtq_f32_s32 dot00) (vdupq_n_f32 scale00);
            acc01 = vfmaq_f32 acc01 (vcvtq_f32_s32 dot01) (vdupq_n_f32 scale01);
            acc10 = vfmaq_f32 acc10 (vcvtq_f32_s32 dot10) (vdupq_n_f32 scale10);
            acc11 = vfmaq_f32 acc11 (vcvtq_f32_s32 dot11) (vdupq_n_f32 scale11)
        in (QuantADataPtrRow0 + 32, QuantADataPtrRow1 + 32, QuantBDataPtr + 16,
            acc00, acc01, acc10, acc11))"

text \<open>The body of its loop over the blocks.\<close>

definition Compute2x2_BlkLenGreaterThan16_blk ::
  "bool \<Rightarrow> nat \<Rightarrow> CompInt8_Buffers \<Rightarrow> nat \<Rightarrow> nat \<Rightarrow> nat \<Rightarrow> nat \<Rightarrow> nat \<Rightarrow> acc2x2 \<Rightarrow> acc2x2" where
  "Compute2x2_BlkLenGreaterThan16_blk HasZeroPoint BlkLen M StrideQuantA StrideQuantBData
     StrideQuantBScale StrideQuantBZeroPoint k_blk_idx st =
     (case st of (QuantAPtr, QuantBDataPtr, QuantBScalePtr, QuantBZeroPointPtr,
                  acc00, acc01, acc10, acc11) \<Rightarrow>
        let SubBlksPerBlk = BlkLen div 32;
            QuantABlkRow0 = QuantAPtr;
            QuantABlkRow1 = QuantAPtr + StrideQuantA;
            QuantBScaleCol0 = QuantBScaleBuf M ! QuantBScalePtr;
            QuantBScaleCol1 = QuantBScaleBuf M ! (QuantBScalePtr + StrideQuantBScale);
            scale00 = Q8BlkScale (QuantABuf M ! QuantABlkRow0) * QuantBScaleCol0;
            scale01 = Q8BlkScale (QuantABuf M ! QuantABlkRow0) * QuantBScaleCol1;
            scale10 = Q8BlkScale (QuantABuf M ! QuantABlkRow1) * QuantBScaleCol0;
            scale11 = Q8BlkScale (QuantABuf M ! QuantABlkRow1) * QuantBScaleCol1;
            bzp_col0 = LoadZeroPoint2x2 HasZeroPoint M QuantBZeroPointPtr k_blk_idx;
            bzp_col1 = LoadZeroPoint2x2 HasZeroPoint M (QuantBZeroPointPtr + StrideQuantBZeroPoint)
                         k_blk_idx
        in case fold (Compute2x2_BlkLenGreaterThan16_subblk M StrideQuantBData QuantABlkRow0
                        QuantABlkRow1 bzp_col0 bzp_col1 scale00 scale01 scale10 scale11)
                  [0..<SubBlksPerBlk] (0, 0, QuantBDataPtr, acc00, acc01, acc10, acc11)
           of (QuantADataPtrRow0, QuantADataPtrRow1, QuantBDataPtr,
               acc00, acc01, acc10, acc11) \<Rightarrow>
             (QuantAPtr + 1, QuantBDataPtr, QuantBScalePtr + 1,
              (if HasZeroPoint then QuantBZeroPointPtr + (if even k_blk_idx then 0 else 1)
               else QuantBZeroPointPtr),
              acc00, acc01, acc10, acc11))"

definition SQ4BitGemm_CompInt8_Compute2x2_BlkLenGreaterThan16 ::
  "bool \<Rightarrow> nat \<Rightarrow> CompInt8_Buffers \<Rightarrow> nat \<Rightarrow> nat \<Rightarrow> nat \<Rightarrow> nat \<Rightarrow> nat option \<Rightarrow> real list \<Rightarrow> nat \<Rightarrow>
   nat \<Rightarrow> nat \<Rightarrow> nat \<Rightarrow> nat \<Rightarrow> nat \<Rightarrow> nat \<Rightarrow> real list" where
  "SQ4BitGemm_CompInt8_Compute2x2_BlkLenGreaterThan16 HasZeroPoint BlkLen M QuantARowPtr
     QuantBDataColPtr QuantBScaleColPtr QuantBZeroPointColPtr BiasPtr C SumPtr BlockCountK
     StrideQuantA StrideQuantBData StrideQuantBScale StrideQuantBZeroPoint ldc =
     (case fold (Compute2x2_BlkLenGreaterThan16_blk HasZeroPoint BlkLen M StrideQuantA
                   StrideQuantBData StrideQuantBScale StrideQuantBZeroPoint) [0..<BlockCountK]
             (QuantARowPtr, QuantBDataColPtr, QuantBScaleColPtr, QuantBZeroPointColPtr,
              replicate 4 0, replicate 4 0, replicate 4 0, replicate 4 0)
      of (QuantAPtr, QuantBDataPtr, QuantBScalePtr, QuantBZeroPointPtr,
          acc00, acc01, acc10, acc11) \<Rightarrow>
        StoreSum2x2 M BiasPtr C SumPtr ldc
          (vaddvq_f32 acc00, vaddvq_f32 acc01, vaddvq_f32 acc10, vaddvq_f32 acc11))"

text \<open>
  \<open>SQ4BitGemm_CompInt8_Compute1x1_BlkLen16\<close>: the loop takes two blocks at a time, with
  their zero-points in the two nibbles of one byte, and one block may be left.
\<close>

type_synonym acc1x1 = "nat \<times> nat \<times> nat \<times> nat \<times> float32x4_t \<times> float32x4_t"

definition Compute1x1_BlkLen16_blks ::
  "bool \<Rightarrow> CompInt8_Buffers \<Rightarrow> acc1x1 \<Rightarrow> acc1x1" where
  "Compute1x1_BlkLen16_blks HasZeroPoint M st =
     (case st of (QuantAPtr, QuantBDataPtr, QuantBScalePtr, QuantBZeroPointPtr, acc0, acc1) \<Rightarrow>
        let QuantABlk0 = QuantAPtr;
            QuantABlk1 = QuantABlk0 + 1;
            scale0 = vdupq_n_f32 (Q8BlkScale (QuantABuf M ! QuantABlk0) *
                                  QuantBScaleBuf M ! (QuantBScalePtr + 0));
            scale1 = vdupq_n_f32 (Q8BlkScale (QuantABuf M ! QuantABlk1) *
                                  QuantBScaleBuf M ! (QuantBScalePtr + 1));
            bzp0 = vdupq_n_s8
                     (if HasZeroPoint then QuantBZeroPointBuf M ! QuantBZeroPointPtr AND 0x0F else 8);
            bzp1 = vdupq_n_s8
                     (if HasZeroPoint then drop_bit 4 (QuantBZeroPointBuf M ! QuantBZeroPointPtr)
                      else 8);
            av0 = vld1q_s8 (Q8BlkData (QuantABuf M ! QuantABlk0)) 0;
            av1 = vld1q_s8 (Q8BlkData (QuantABuf M ! QuantABlk1)) 0;
            bv_packed01 = vld1q_u8 (QuantBDataBuf M) QuantBDataPtr;
            LowMaskU8x16 = vdupq_n_u8 0x0F;
            bv_lo01 = vandq_u8 bv_packed01 LowMaskU8x16;
            bv_hi01 = vshrq_n_u8 bv_packed01 4;
            bv0 = vreinterpretq_s8_u8 (vcombine_u8 (vget_low_u8 bv_lo01) (vget_low_u8 bv_hi01));
            bv1 = vreinterpretq_s8_u8 (vcombine_u8 (vget_high_u8 bv_lo01) (vget_high_u8 bv_hi01));
            bv0 = vsubq_s8 bv0 bzp0;
            bv1 = vsubq_s8 bv1 bzp1;
            dot0 = vdotq_s32 (vdupq_n_s32 0) av0 bv0;
            dot1 = vdotq_s32 (vdupq_n_s32 0) av1 bv1;
            acc0 = vfmaq_f32 acc0 (vcvtq_f32_s32 dot0) scale0;
            acc1 = vfmaq_f32 acc1 (vcvtq_f32_s32 dot1) scale1
        in (QuantAPtr + 1 * 2, QuantBDataPtr + 8 * 2, QuantBScalePtr + 2,
            (if HasZeroPoint then QuantBZeroPointPtr + 1 else QuantBZeroPointPtr), acc0, acc1))"

function Compute1x1_BlkLen16_loop ::
  "bool \<Rightarrow> CompInt8_Buffers \<Rightarrow> nat \<Rightarrow> acc1x1 \<Rightarrow> nat \<times> acc1x1" where
  "Compute1x1_BlkLen16_loop HasZeroPoint M k_blks_remaining st =
     (if k_blks_remaining > 1 then
        Compute1x1_BlkLen16_loop HasZeroPoint M (k_blks_remaining - 2)
          (Compute1x1_BlkLen16_blks HasZeroPoint M st)
      else (k_blks_remaining, st))"
  by pat_completeness auto
termination
  by (relation "measure (\<lambda>(h, M, k, st). k)") auto

declare Compute1x1_BlkLen16_loop.simps [simp del]

definition Compute1x1_BlkLen16_last ::
  "bool \<Rightarrow> CompInt8_Buffers \<Rightarrow> acc1x1 \<Rightarrow> float32x4_t" where
  "Compute1x1_BlkLen16_last HasZeroPoint M st =
     (case st of (QuantAPtr, QuantBDataPtr, QuantBScalePtr, QuantBZeroPointPtr, acc0, acc1) \<Rightarrow>
        let QuantABlk0 = QuantAPtr;
            scale0 = vdupq_n_f32 (Q8BlkScale (QuantABuf M ! QuantABlk0) *
                                  QuantBScaleBuf M ! QuantBScalePtr);
            bzp0 = vdupq_n_s8
                     (if HasZeroPoint then QuantBZeroPointBuf M ! QuantBZeroPointPtr AND 0x0F else 8);
            av0 = vld1q_s8 (Q8BlkData (QuantABuf M ! QuantABlk0)) 0;
            bv_packed0 = vld1_u8 (QuantBDataBuf M) QuantBDataPtr;
            LowMaskU8x8 = vdup_n_u8 0x0F;
            bv_lo0 = vand_u8 bv_packed0 LowMaskU8x8;
            bv_hi0 = vshr_n_u8 bv_packed0 4;
            bv0 = vreinterpretq_s8_u8 (vcombine_u8 bv_lo0 bv_hi0);
            bv0 = vsubq_s8 bv0 bzp0;
            dot0 = vdotq_s32 (vdupq_n_s32 0) av0 bv0
        in vfmaq_f32 acc0 (vcvtq_f32_s32 dot0) scale0)"

definition SQ4BitGemm_CompInt8_Compute1x1_BlkLen16 ::
  "bool \<Rightarrow> CompInt8_Buffers \<Rightarrow> nat \<Rightarrow> nat \<Rightarrow> nat \<Rightarrow> nat \<Rightarrow> nat option \<Rightarrow> real list \<Rightarrow> nat \<Rightarrow>
   nat \<Rightarrow> real list" where
  "SQ4BitGemm_CompInt8_Compute1x1_BlkLen16 HasZeroPoint M QuantARowPtr QuantBDataColPtr
     QuantBScaleColPtr QuantBZeroPointColPtr BiasPtr C SumPtr BlockCountK =
     (case Compute1x1_BlkLen16_loop HasZeroPoint M BlockCountK
             (QuantARowPtr, QuantBDataColPtr, QuantBScaleColPtr, QuantBZeroPointColPtr,
              replicate 4 0, replicate 4 0)
      of (k_blks_remaining, st) \<Rightarrow>
        (case st of (QuantAPtr, QuantBDataPtr, QuantBScalePtr, QuantBZeroPointPtr, acc0, acc1) \<Rightarrow>
           let acc0 = (if k_blks_remaining > 0 then Compute1x1_BlkLen16_last HasZeroPoint M st
                       else acc0)
           in StoreSum1x1 M BiasPtr C SumPtr (vaddvq_f32 acc0 + vaddvq_f32 acc1)))"

text \<open>\<open>SQ4BitGemm_CompInt8_Compute1x1_BlkLen32\<close>, of the same shape for blocks of 32 codes.\<close>

definition Compute1x1_BlkLen32_blks ::
  "bool \<Rightarrow> CompInt8_Buffers \<Rightarrow> acc1x1 \<Rightarrow> acc1x1" where
  "Compute1x1_BlkLen32_blks HasZeroPoint M st =
     (case st of (QuantAPtr, QuantBDataPtr, QuantBScalePtr, QuantBZeroPointPtr, acc0, acc1) \<Rightarrow>
        let LowMaskU8x16 = vdupq_n_u8 0x0F;
            QuantABlk0 = QuantAPtr;
            QuantABlk1 = QuantABlk0 + 1;
            scale0 = vdupq_n_f32 (Q8BlkScale (QuantABuf M ! QuantABlk0) *
                                  QuantBScaleBuf M ! (QuantBScalePtr + 0));
            scale1 = vdupq_n_f32 (Q8BlkScale (QuantABuf M ! QuantABlk1) *
                                  QuantBScaleBuf M ! (QuantBScalePtr + 1));
            bzp0 = vdupq_n_s8
                     (if HasZeroPoint then QuantBZeroPointBuf M ! QuantBZeroPointPtr AND 0x0F else 8);
            bzp1 = vdupq_n_s8
                     (if HasZeroPoint then drop_bit 4 (QuantBZeroPointBuf M ! QuantBZeroPointPtr)
                      else 8);
            av_lo0 = vld1q_s8 (Q8BlkData (QuantABuf M ! QuantABlk0)) 0;
            av_hi0 = vld1q_s8 (Q8BlkData (QuantABuf M ! QuantABlk0)) 16;
            av_lo1 = vld1q_s8 (Q8BlkData (QuantABuf M ! QuantABlk1)) 0;
            av_hi1 = vld1q_s8 (Q8BlkData (QuantABuf M ! QuantABlk1)) 16;
            bv_packed0 = vld1q_u8 (QuantBDataBuf M) QuantBDataPtr;
            bv_packed1 = vld1q_u8 (QuantBDataBuf M) (QuantBDataPtr + 16);
            bv_lo0 = vreinterpretq_s8_u8 (vandq_u8 bv_packed0 LowMaskU8x16);
            bv_hi0 = vreinterpretq_s8_u8 (vshrq_n_u8 bv_packed0 4);
            bv_lo1 = vreinterpretq_s8_u8 (vandq_u8 bv_packed1 LowMaskU8x16);
            bv_hi1 = vreinterpretq_s8_u8 (vshrq_n_u8 bv_packed1 4);
            bv_lo0 = vsubq_s8 bv_lo0 bzp0;
            bv_hi0 = vsubq_s8 bv_hi0 bzp0;
            bv_lo1 = vsubq_s8 bv_lo1 bzp1;
            bv_hi1 = vsubq_s8 bv_hi1 bzp1;
            dot0 = vdotq_s32 (vdotq_s32 (vdupq_n_s32 0) av_lo0 bv_lo0) av_hi0 bv_hi0;
            dot1 = vdotq_s32 (vdotq_s32 (vdupq_n_s32 0) av_lo1 bv_lo1) av_hi1 bv_hi1;
            acc0 = vfmaq_f32 acc0 (vcvtq_f32_s32 dot0) scale0;
            acc1 = vfmaq_f32 acc1 (vcvtq_f32_s32 dot1) scale1
        in (QuantAPtr + 1 * 2, QuantBDataPtr + 16 * 2, QuantBScalePtr + 2,
            (if HasZeroPoint then QuantBZeroPointPtr + 1 else QuantBZeroPointPtr), acc0, acc1))"

function Compute1x1_BlkLen32_loop ::
  "bool \<Rightarrow> CompInt8_Buffers \<Rightarrow> nat \<Rightarrow> acc1x1 \<Rightarrow> nat \<times> acc1x1" where
  "Compute1x1_BlkLen32_loop HasZeroPoint M k_blks_remaining st =
     (if k_blks_remaining > 1 then
        Compute1x1_BlkLen32_loop HasZeroPoint M (k_blks_remaining - 2)
          (Compute1x1_BlkLen32_blks HasZeroPoint M st)
      else (k_blks_remaining, st))"
  by pat_completeness auto
termination
  by (relation "measure (\<lambda>(h, M, k, st). k)") auto

declare Compute1x1_BlkLen32_loop.simps [simp del]

definition Compute1x1_BlkLen32_last ::
  "bool \<Rightarrow> CompInt8_Buffers \<Rightarrow> acc1x1 \<Rightarrow> float32x4_t" where
  "Compute1x1_BlkLen32_last HasZeroPoint M st =
     (case st of (QuantAPtr, QuantBDataPtr, QuantBScalePtr, QuantBZeroPointPtr, acc0, acc1) \<Rightarrow>
        let LowMaskU8x16 = vdupq_n_u8 0x0F;
            QuantABlk0 = QuantAPtr;
            scale0 = vdupq_n_f32 (Q8BlkScale (QuantABuf M ! QuantABlk0) *
                                  QuantBScaleBuf M ! QuantBScalePtr);
            bzp0 = vdupq_n_s8
                     (if HasZeroPoint then QuantBZeroPointBuf M ! QuantBZeroPointPtr AND 0x0F else 8);
            av_lo0 = vld1q_s8 (Q8BlkData (QuantABuf M ! QuantABlk0)) 0;
            av_hi0 = vld1q_s8 (Q8BlkData (QuantABuf M ! QuantABlk0)) 16;
            bv_packed0 = vld1q_u8 (QuantBDataBuf M) QuantBDataPtr;
            bv_lo0 = vreinterpretq_s8_u8 (vandq_u8 bv_packed0 LowMaskU8x16);
            bv_hi0 = vreinterpretq_s8_u8 (vshrq_n_u8 bv_packed0 4);
            bv_lo0 = vsubq_s8 bv_lo0 bzp0;
            bv_hi0 = vsubq_s8 bv_hi0 bzp0;
            dot0 = vdotq_s32 (vdotq_s32 (vdupq_n_s32 0) av_lo0 bv_lo0) av_hi0 bv_hi0
        in vfmaq_f32 acc0 (vcvtq_f32_s32 dot0) scale0)"

definition SQ4BitGemm_CompInt8_Compute1x1_BlkLen32 ::
  "bool \<Rightarrow> CompInt8_Buffers \<Rightarrow> nat \<Rightarrow> nat \<Rightarrow> nat \<Rightarrow> nat \<Rightarrow> nat option \<Rightarrow> real list \<Rightarrow> nat \<Rightarrow>
   nat \<Rightarrow> real list" where
  "SQ4BitGemm_CompInt8_Compute1x1_BlkLen32 HasZeroPoint M QuantARowPtr QuantBDataColPtr
     QuantBScaleColPtr QuantBZeroPointColPtr BiasPtr C SumPtr BlockCountK =
     (case Compute1x1_BlkLen32_loop HasZeroPoint M BlockCountK
             (QuantARowPtr, QuantBDataColPtr, QuantBScaleColPtr, QuantBZeroPointColPtr,
              replicate 4 0, replicate 4 0)
      of (k_blks_remaining, st) \<Rightarrow>
        (case st of (QuantAPtr, QuantBDataPtr, QuantBScalePtr, QuantBZeroPointPtr, acc0, acc1) \<Rightarrow>
           let acc0 = (if k_blks_remaining > 0 then Compute1x1_BlkLen32_last HasZeroPoint M st
                       else acc0)
           in StoreSum1x1 M BiasPtr C SumPtr (vaddvq_f32 acc0 + vaddvq_f32 acc1)))"

text \<open>
  \<open>SQ4BitGemm_CompInt8_Compute1x1_BlkLenGreaterThan32\<close>: the body of the loop over the
  sub-blocks, two sub-blocks of 32 codes at a time. The loop
  \<open>for (sub_blk_idx = 0; sub_blk_idx < SubBlksPerBlk; sub_blk_idx += 2)\<close> runs
  \<open>(SubBlksPerBlk + 1) div 2\<close> times.
\<close>

type_synonym subacc1x1 = "nat \<times> nat \<times> float32x4_t \<times> float32x4_t"

definition Compute1x1_BlkLenGreaterThan32_subblks ::
  "CompInt8_Buffers \<Rightarrow> nat \<Rightarrow> 8 word \<Rightarrow> real \<Rightarrow> subacc1x1 \<Rightarrow> subacc1x1" where
  "Compute1x1_BlkLenGreaterThan32_subblks M QuantABlk0 bzp scale st =
     (case st of (QuantADataPtr, QuantBDataPtr, acc0, acc1) \<Rightarrow>
        let LowMaskU8x16 = vdupq_n_u8 0x0F;
            av0 = vld1q_s8 (Q8BlkData (QuantABuf M ! QuantABlk0)) (QuantADataPtr + 0);
            av1 = vld1q_s8 (Q8BlkData (QuantABuf M ! QuantABlk0)) (QuantADataPtr + 16);
            av2 = vld1q_s8 (Q8BlkData (QuantABuf M ! QuantABlk0)) (QuantADataPtr + 32);
            av3 = vld1q_s8 (Q8BlkData (QuantABuf M ! QuantABlk0)) (QuantADataPtr + 48);
            bv_packed0 = vld1q_u8 (QuantBDataBuf M) QuantBDataPtr;
            bv_packed1 = vld1q_u8 (QuantBDataBuf M) (QuantBDataPtr + 16);
            bv0 = vreinterpretq_s8_u8 (vandq_u8 bv_packed0 LowMaskU8x16);
            bv1 = vreinterpretq_s8_u8 (vshrq_n_u8 bv_packed0 4);
            bv2 = vreinterpretq_s8_u8 (vandq_u8 bv_packed1 LowMaskU8x16);
            bv3 = vreinterpretq_s8_u8 (vshrq_n_u8 bv_packed1 4);
            bv0 = vsubq_s8 bv0 (vdupq_n_s8 bzp);
            bv1 = vsubq_s8 bv1 (vdupq_n_s8 bzp);
            bv2 = vsubq_s8 bv2 (vdupq_n_s8 bzp);
            bv3 = vsubq_s8 bv3 (vdupq_n_s8 bzp);
            dot0 = vdotq_s32 (vdotq_s32 (vdupq_n_s32 0) av0 bv0) av1 bv1;
            dot1 = vdotq_s32 (vdotq_s32 (vdupq_n_s32 0) av2 bv2) av3 bv3;
            acc0 = vfmaq_f32 acc0 (vcvtq_f32_s32 dot0) (vdupq_n_f32 scale);
            acc1 = vfmaq_f32 acc1 (vcvtq_f32_s32 dot1) (vdupq_n_f32 scale)
        in (QuantADataPtr + 16 * 4, QuantBDataPtr + 16 * 2, acc0, acc1))"

function Compute1x1_BlkLenGreaterThan32_subloop ::
  "CompInt8_Buffers \<Rightarrow> nat \<Rightarrow> 8 word \<Rightarrow> real \<Rightarrow> nat \<Rightarrow> nat \<Rightarrow> subacc1x1 \<Rightarrow> subacc1x1" where
  "Compute1x1_BlkLenGreaterThan32_subloop M QuantABlk0 bzp scale SubBlksPerBlk sub_blk_idx st =
     (if sub_blk_idx < SubBlksPerBlk then
        Compute1x1_BlkLenGreaterThan32_subloop M QuantABlk0 bzp scale SubBlksPerBlk
          (sub_blk_idx + 2) (Compute1x1_BlkLenGreaterThan32_subblks M QuantABlk0 bzp scale st)
      else st)"
  by pat_completeness auto
termination
  by (relation "measure (\<lambda>(M, a, z, s, n, i, st). n - i)") auto

declare Compute1x1_BlkLenGreaterThan32_subloop.simps [simp del]

text \<open>
  The body of its loop over the blocks. The zero-point is the low nibble of the byte at
  the zero-point pointer, for every block index.
\<close>

definition Compute1x1_BlkLenGreaterThan32_blk ::
  "bool \<Rightarrow> nat \<Rightarrow> CompInt8_Buffers \<Rightarrow> nat \<Rightarrow> acc1x1 \<Rightarrow> acc1x1" where
  "Compute1x1_BlkLenGreaterThan32_blk HasZeroPoint BlkLen M k_blk_idx st =
     (case st of (QuantAPtr, QuantBDataPtr, QuantBScalePtr, QuantBZeroPointPtr, acc0, acc1) \<Rightarrow>
        let SubBlksPerBlk = BlkLen div 32;
            QuantABlk0 = QuantAPtr;
            scale = Q8BlkScale (QuantABuf M ! QuantABlk0) * QuantBScaleBuf M ! (QuantBScalePtr + 0);
            bzp = (if HasZeroPoint then QuantBZeroPointBuf M ! QuantBZeroPointPtr AND 0x0F else 8)
        in case Compute1x1_BlkLenGreaterThan32_subloop M QuantABlk0 bzp scale SubBlksPerBlk 0
                  (0, QuantBDataPtr, acc0, acc1)
           of (QuantADataPtr, QuantBDataPtr, acc0, acc1) \<Rightarrow>
             (QuantAPtr + 1, QuantBDataPtr, QuantBScalePtr + 1,
              (if HasZeroPoint then QuantBZeroPointPtr + (if even k_blk_idx then 0 else 1)
               else QuantBZeroPointPtr),
              acc0, acc1))"

definition SQ4BitGemm_CompInt8_Compute1x1_BlkLenGreaterThan32 ::
  "bool \<Rightarrow> nat \<Rightarrow> CompInt8_Buffers \<Rightarrow> nat \<Rightarrow> nat \<Rightarrow> nat \<Rightarrow> nat \<Rightarrow> nat option \<Rightarrow> real list \<Rightarrow> nat \<Rightarrow>
   nat \<Rightarrow> real list" where
  "SQ4BitGemm_CompInt8_Compute1x1_BlkLenGreaterThan32 HasZeroPoint BlkLen M QuantARowPtr
     QuantBDataColPtr QuantBScaleColPtr QuantBZeroPointColPtr BiasPtr C SumPtr BlockCountK =
     (case fold (Compute1x1_BlkLenGreaterThan32_blk HasZeroPoint BlkLen M) [0..<BlockCountK]
             (QuantARowPtr, QuantBDataColPtr, QuantBScaleColPtr, QuantBZeroPointColPtr,
              replicate 4 0, replicate 4 0)
      of (QuantAPtr, QuantBDataPtr, QuantBScalePtr, QuantBZeroPointPtr, acc0, acc1) \<Rightarrow>
        StoreSum1x1 M BiasPtr C SumPtr (vaddvq_f32 acc0 + vaddvq_f32 acc1))"

section \<open>The integer kernels: loops over the tiles\<close>

text \<open>
  \<open>SQ4BitGemmKernel_CompInt8_BlkLen16\<close>, \<open>SQ4BitGemmKernel_CompInt8_BlkLen32\<close> and
  \<open>SQ4BitGemmKernel_CompInt8_BlkLenGreaterThan32\<close> have the same loops over the rows and
  the columns and differ in the two tile functions they call. The loops are written once,
  over the tile functions; a tile function takes the row pointer into \<open>QuantA\<close>, the
  column pointers into the scales, the codes and the zero-points of B, the bias pointer,
  the output buffer and the pointer into it.
\<close>

type_synonym tile_fn = "nat \<Rightarrow> nat \<Rightarrow> nat \<Rightarrow> nat \<Rightarrow> nat option \<Rightarrow> real list \<Rightarrow> nat \<Rightarrow> real list"

text \<open>The loop \<open>while (n_remaining > 1)\<close> over the tiles of two columns of a pair of rows.\<close>

function CompInt8_Cols2x2 ::
  "tile_fn \<Rightarrow> bool \<Rightarrow> nat \<Rightarrow> nat \<Rightarrow> nat \<Rightarrow> nat \<Rightarrow>
   nat \<Rightarrow> nat \<Rightarrow> nat \<Rightarrow> nat option \<Rightarrow> nat \<Rightarrow> nat \<Rightarrow> real list \<Rightarrow>
   nat \<times> nat \<times> nat \<times> nat option \<times> nat \<times> nat \<times> real list" where
  "CompInt8_Cols2x2 Compute2x2 HasZeroPoint StrideQuantBData StrideQuantBScale
     StrideQuantBZeroPoint QuantARowPtr
     QuantBDataColPtr QuantBScaleColPtr QuantBZeroPointColPtr BiasPtr SumPtr n_remaining C =
     (if n_remaining > 1 then
        CompInt8_Cols2x2 Compute2x2 HasZeroPoint StrideQuantBData StrideQuantBScale
          StrideQuantBZeroPoint QuantARowPtr
          (QuantBDataColPtr + 2 * StrideQuantBData)
          (QuantBScaleColPtr + 2 * StrideQuantBScale)
          (if HasZeroPoint then QuantBZeroPointColPtr + 2 * StrideQuantBZeroPoint
           else QuantBZeroPointColPtr)
          (case BiasPtr of None \<Rightarrow> None | Some b \<Rightarrow> Some (b + 2))
          (SumPtr + 2)
          (n_remaining - 2)
          (Compute2x2 QuantARowPtr QuantBDataColPtr QuantBScaleColPtr QuantBZeroPointColPtr
             BiasPtr C SumPtr)
      else (QuantBDataColPtr, QuantBScaleColPtr, QuantBZeroPointColPtr, BiasPtr, SumPtr,
            n_remaining, C))"
  by pat_completeness auto
termination
  by (relation "measure (\<lambda>(f, h, s1, s2, s3, a, p1, p2, p3, b, s, n, C). n)") auto

declare CompInt8_Cols2x2.simps [simp del]

text \<open>The loop \<open>while (n_remaining > 0)\<close> over the tiles of one column of the last row.\<close>

function CompInt8_Cols1x1 ::
  "tile_fn \<Rightarrow> bool \<Rightarrow> nat \<Rightarrow> nat \<Rightarrow> nat \<Rightarrow> nat \<Rightarrow>
   nat \<Rightarrow> nat \<Rightarrow> nat \<Rightarrow> nat option \<Rightarrow> nat \<Rightarrow> nat \<Rightarrow> real list \<Rightarrow> real list" where
  "CompInt8_Cols1x1 Compute1x1 HasZeroPoint StrideQuantBData StrideQuantBScale
     StrideQuantBZeroPoint QuantARowPtr
     QuantBDataColPtr QuantBScaleColPtr QuantBZeroPointColPtr BiasPtr SumPtr n_remaining C =
     (if n_remaining > 0 then
        CompInt8_Cols1x1 Compute1x1 HasZeroPoint StrideQuantBData StrideQuantBScale
          StrideQuantBZeroPoint QuantARowPtr
          (QuantBDataColPtr + StrideQuantBData)
          (QuantBScaleColPtr + StrideQuantBScale)
          (if HasZeroPoint then QuantBZeroPointColPtr + StrideQuantBZeroPoint
           else QuantBZeroPointColPtr)
          (case BiasPtr of None \<Rightarrow> None | Some b \<Rightarrow> Some (b + 1))
          (SumPtr + 1)
          (n_remaining - 1)
          (Compute1x1 QuantARowPtr QuantBDataColPtr QuantBScaleColPtr QuantBZeroPointColPtr
             BiasPtr C SumPtr)
      else C)"
  by pat_completeness auto
termination
  by (relation "measure (\<lambda>(f, h, s1, s2, s3, a, p1, p2, p3, b, s, n, C). n)") auto

declare CompInt8_Cols1x1.simps [simp del]

text \<open>
  The body of the loop \<open>while (m_remaining > 1)\<close>: a pair of rows, its tiles of two
  columns and, where a column is left, the two tiles of one element.
\<close>

definition CompInt8_RowPair ::
  "tile_fn \<Rightarrow> tile_fn \<Rightarrow> bool \<Rightarrow> nat \<Rightarrow> nat \<Rightarrow> nat \<Rightarrow> nat \<Rightarrow> nat \<Rightarrow> nat \<Rightarrow> nat option \<Rightarrow>
   nat \<Rightarrow> nat \<Rightarrow> real list \<Rightarrow> real list" where
  "CompInt8_RowPair Compute2x2 Compute1x1 HasZeroPoint StrideQuantA StrideQuantBData
     StrideQuantBScale StrideQuantBZeroPoint CountN ldc Bias QuantARowPtr SumRowPtr C =
     (case CompInt8_Cols2x2 Compute2x2 HasZeroPoint StrideQuantBData StrideQuantBScale
             StrideQuantBZeroPoint QuantARowPtr 0 0 0 Bias SumRowPtr CountN C
      of (QuantBDataColPtr, QuantBScaleColPtr, QuantBZeroPointColPtr, BiasPtr, SumPtr,
          n_remaining, C) \<Rightarrow>
        if n_remaining > 0 then
          let C = Compute1x1 QuantARowPtr QuantBDataColPtr QuantBScaleColPtr
                    QuantBZeroPointColPtr BiasPtr C SumPtr;
              C = Compute1x1 (QuantARowPtr + StrideQuantA) QuantBDataColPtr QuantBScaleColPtr
                    QuantBZeroPointColPtr BiasPtr C (SumPtr + ldc)
          in C
        else C)"

function CompInt8_Rows ::
  "tile_fn \<Rightarrow> tile_fn \<Rightarrow> bool \<Rightarrow> nat \<Rightarrow> nat \<Rightarrow> nat \<Rightarrow> nat \<Rightarrow> nat \<Rightarrow> nat \<Rightarrow> nat option \<Rightarrow>
   nat \<Rightarrow> nat \<Rightarrow> nat \<Rightarrow> real list \<Rightarrow> nat \<times> nat \<times> nat \<times> real list" where
  "CompInt8_Rows Compute2x2 Compute1x1 HasZeroPoint StrideQuantA StrideQuantBData
     StrideQuantBScale StrideQuantBZeroPoint CountN ldc Bias QuantARowPtr SumRowPtr m_remaining C =
     (if m_remaining > 1 then
        CompInt8_Rows Compute2x2 Compute1x1 HasZeroPoint StrideQuantA StrideQuantBData
          StrideQuantBScale StrideQuantBZeroPoint CountN ldc Bias
          (QuantARowPtr + 2 * StrideQuantA) (SumRowPtr + 2 * ldc) (m_remaining - 2)
          (CompInt8_RowPair Compute2x2 Compute1x1 HasZeroPoint StrideQuantA StrideQuantBData
             StrideQuantBScale StrideQuantBZeroPoint CountN ldc Bias QuantARowPtr SumRowPtr C)
      else (QuantARowPtr, SumRowPtr, m_remaining, C))"
  by pat_completeness auto
termination
  by (relation "measure (\<lambda>(f, g, h, s0, s1, s2, s3, n, l, b, a, s, m, C). m)") auto

declare CompInt8_Rows.simps [simp del]

text \<open>
  The loops of a kernel. \<open>QuantA\<close>, \<open>QuantBData\<close>, \<open>QuantBScale\<close>, \<open>QuantBZeroPoint\<close>,
  \<open>Bias\<close> and \<open>C\<close> of the source point at the start of their buffers; \<open>Bias\<close> is
  \<open>None\<close> for the null pointer and \<open>Some 0\<close> otherwise.
\<close>

definition CompInt8_Loops ::
  "tile_fn \<Rightarrow> tile_fn \<Rightarrow> bool \<Rightarrow> nat \<Rightarrow> nat \<Rightarrow> nat \<Rightarrow> nat \<Rightarrow> real list \<Rightarrow> nat \<Rightarrow> nat \<Rightarrow> nat \<Rightarrow>
   nat option \<Rightarrow> real list" where
  "CompInt8_Loops Compute2x2 Compute1x1 HasZeroPoint StrideQuantA StrideQuantBData
     StrideQuantBScale StrideQuantBZeroPoint C CountM CountN ldc Bias =
     (case CompInt8_Rows Compute2x2 Compute1x1 HasZeroPoint StrideQuantA StrideQuantBData
             StrideQuantBScale StrideQuantBZeroPoint CountN ldc Bias 0 0 CountM C
      of (QuantARowPtr, SumRowPtr, m_remaining, C) \<Rightarrow>
        if m_remaining > 0 then
          CompInt8_Cols1x1 Compute1x1 HasZeroPoint StrideQuantBData StrideQuantBScale
            StrideQuantBZeroPoint QuantARowPtr 0 0 0 Bias SumRowPtr CountN C
        else C)"

definition SQ4BitGemmKernel_CompInt8_BlkLen16 ::
  "bool \<Rightarrow> CompInt8_Buffers \<Rightarrow> real list \<Rightarrow> nat \<Rightarrow> nat \<Rightarrow> nat \<Rightarrow> nat \<Rightarrow> nat option \<Rightarrow> real list" where
  "SQ4BitGemmKernel_CompInt8_BlkLen16 HasZeroPoint M C CountM CountN BlockCountK ldc Bias =
     (let BlkBitWidth = 4;
          BlkLen = 16;
          StrideQuantA = BlockCountK;
          StrideQuantBData = BlockCountK * MlasQNBitBlkDataSizeInBytes BlkBitWidth BlkLen;
          StrideQuantBScale = BlockCountK;
          StrideQuantBZeroPoint = MlasQNBitZeroPointsForBlksSizeInBytes BlockCountK
      in CompInt8_Loops
           (\<lambda>QuantARowPtr QuantBDataColPtr QuantBScaleColPtr QuantBZeroPointColPtr BiasPtr C SumPtr.
              SQ4BitGemm_CompInt8_Compute2x2_BlkLen16 HasZeroPoint M QuantARowPtr
                QuantBDataColPtr QuantBScaleColPtr QuantBZeroPointColPtr BiasPtr C SumPtr
                BlockCountK StrideQuantA StrideQuantBData StrideQuantBScale
                StrideQuantBZeroPoint ldc)
           (\<lambda>QuantARowPtr QuantBDataColPtr QuantBScaleColPtr QuantBZeroPointColPtr BiasPtr C SumPtr.
              SQ4BitGemm_CompInt8_Compute1x1_BlkLen16 HasZeroPoint M QuantARowPtr
                QuantBDataColPtr QuantBScaleColPtr QuantBZeroPointColPtr BiasPtr C SumPtr
                BlockCountK)
           HasZeroPoint StrideQuantA StrideQuantBData StrideQuantBScale StrideQuantBZeroPoint
           C CountM CountN ldc Bias)"

definition SQ4BitGemmKernel_CompInt8_BlkLen32 ::
  "bool \<Rightarrow> CompInt8_Buffers \<Rightarrow> real list \<Rightarrow> nat \<Rightarrow> nat \<Rightarrow> nat \<Rightarrow> nat \<Rightarrow> nat option \<Rightarrow> real list" where
  "SQ4BitGemmKernel_CompInt8_BlkLen32 HasZeroPoint M C CountM CountN BlockCountK ldc Bias =
     (let BlkBitWidth = 4;
          BlkLen = 32;
          StrideQuantA = BlockCountK;
          StrideQuantBData = BlockCountK * MlasQNBitBlkDataSizeInBytes BlkBitWidth BlkLen;
          StrideQuantBScale = BlockCountK;
          StrideQuantBZeroPoint = MlasQNBitZeroPointsForBlksSizeInBytes BlockCountK
      in CompInt8_Loops
           (\<lambda>QuantARowPtr QuantBDataColPtr QuantBScaleColPtr QuantBZeroPointColPtr BiasPtr C SumPtr.
              SQ4BitGemm_CompInt8_Compute2x2_BlkLenGreaterThan16 HasZeroPoint BlkLen M
                QuantARowPtr QuantBDataColPtr QuantBScaleColPtr QuantBZeroPointColPtr BiasPtr C
                SumPtr BlockCountK StrideQuantA StrideQuantBData StrideQuantBScale
                StrideQuantBZeroPoint ldc)
           (\<lambda>QuantARowPtr QuantBDataColPtr QuantBScaleColPtr QuantBZeroPointColPtr BiasPtr C SumPtr.
              SQ4BitGemm_CompInt8_Compute1x1_BlkLen32 HasZeroPoint M QuantARowPtr
                QuantBDataColPtr QuantBScaleColPtr QuantBZeroPointColPtr BiasPtr C SumPtr
                BlockCountK)
           HasZeroPoint StrideQuantA StrideQuantBData StrideQuantBScale StrideQuantBZeroPoint
           C CountM CountN ldc Bias)"

definition SQ4BitGemmKernel_CompInt8_BlkLenGreaterThan32 ::
  "bool \<Rightarrow> nat \<Rightarrow> CompInt8_Buffers \<Rightarrow> real list \<Rightarrow> nat \<Rightarrow> nat \<Rightarrow> nat \<Rightarrow> nat \<Rightarrow> nat option \<Rightarrow>
   real list" where
  "SQ4BitGemmKernel_CompInt8_BlkLenGreaterThan32 HasZeroPoint BlkLen M C CountM CountN
     BlockCountK ldc Bias =
     (let BlkBitWidth = 4;
          StrideQuantA = BlockCountK;
          StrideQuantBData = BlockCountK * MlasQNBitBlkDataSizeInBytes BlkBitWidth BlkLen;
          StrideQuantBScale = BlockCountK;
          StrideQuantBZeroPoint = MlasQNBitZeroPointsForBlksSizeInBytes BlockCountK
      in CompInt8_Loops
           (\<lambda>QuantARowPtr QuantBDataColPtr QuantBScaleColPtr QuantBZeroPointColPtr BiasPtr C SumPtr.
              SQ4BitGemm_CompInt8_Compute2x2_BlkLenGreaterThan16 HasZeroPoint BlkLen M
                QuantARowPtr QuantBDataColPtr QuantBScaleColPtr QuantBZeroPointColPtr BiasPtr C
                SumPtr BlockCountK StrideQuantA StrideQuantBData StrideQuantBScale
                StrideQuantBZeroPoint ldc)
           (\<lambda>QuantARowPtr QuantBDataColPtr QuantBScaleColPtr QuantBZeroPointColPtr BiasPtr C SumPtr.
              SQ4BitGemm_CompInt8_Compute1x1_BlkLenGreaterThan32 HasZeroPoint BlkLen M
                QuantARowPtr QuantBDataColPtr QuantBScaleColPtr QuantBZeroPointColPtr BiasPtr C
                SumPtr BlockCountK)
           HasZeroPoint StrideQuantA StrideQuantBData StrideQuantBScale StrideQuantBZeroPoint
           C CountM CountN ldc Bias)"

definition SQ4BitGemmKernel_CompInt8_DispatchOnBlkLen ::
  "bool \<Rightarrow> nat \<Rightarrow> CompInt8_Buffers \<Rightarrow> real list \<Rightarrow> nat \<Rightarrow> nat \<Rightarrow> nat \<Rightarrow> nat \<Rightarrow> nat option \<Rightarrow>
   real list" where
  "SQ4BitGemmKernel_CompInt8_DispatchOnBlkLen HasZeroPoint BlkLen M C CountM CountN
     BlockCountK ldc Bias =
     (if BlkLen = 16 then
        SQ4BitGemmKernel_CompInt8_BlkLen16 HasZeroPoint M C CountM CountN BlockCountK ldc Bias
      else if BlkLen = 32 then
        SQ4BitGemmKernel_CompInt8_BlkLen32 HasZeroPoint M C CountM CountN BlockCountK ldc Bias
      else
        SQ4BitGemmKernel_CompInt8_BlkLenGreaterThan32 HasZeroPoint BlkLen M C CountM CountN
          BlockCountK ldc Bias)"

text \<open>
  \<open>SQ4BitGemmKernel_CompInt8\<close>. Its pointer arguments \<open>QuantBZeroPoint\<close> and \<open>Bias\<close>
  may be null: they are \<open>None\<close> then and \<open>Some\<close> of the buffer otherwise. It returns the
  output buffer together with its return value.
\<close>

definition SQ4BitGemmKernel_CompInt8 ::
  "nat \<Rightarrow> Q8Blk list \<Rightarrow> byte list \<Rightarrow> real list \<Rightarrow> byte list option \<Rightarrow> real list \<Rightarrow>
   nat \<Rightarrow> nat \<Rightarrow> nat \<Rightarrow> nat \<Rightarrow> nat \<Rightarrow> real list option \<Rightarrow> real list \<times> nat" where
  "SQ4BitGemmKernel_CompInt8 BlkLen QuantA QuantBData QuantBScale QuantBZeroPoint C
     CountM CountN CountK BlockCountK ldc Bias =
     (let M = \<lparr>QuantBDataBuf = QuantBData, QuantBScaleBuf = QuantBScale,
              QuantBZeroPointBuf = (case QuantBZeroPoint of None \<Rightarrow> [] | Some z \<Rightarrow> z),
              BiasBuf = (case Bias of None \<Rightarrow> [] | Some b \<Rightarrow> b),
              QuantABuf = QuantA\<rparr>;
          BiasPtr = (case Bias of None \<Rightarrow> None | Some b \<Rightarrow> Some 0);
          C = (if QuantBZeroPoint \<noteq> None then
                 SQ4BitGemmKernel_CompInt8_DispatchOnBlkLen True BlkLen M C CountM CountN
                   BlockCountK ldc BiasPtr
               else
                 SQ4BitGemmKernel_CompInt8_DispatchOnBlkLen False BlkLen M C CountM CountN
                   BlockCountK ldc BiasPtr)
      in (C, CountM))"

section \<open>What the integer kernel is to compute\<close>

text \<open>
  The zero-point of block \<open>b\<close> of column \<open>n\<close>: 8 without zero-points, and otherwise the
  nibble of byte \<open>b div 2\<close> of the column's zero-points, the low one for an even and the
  high one for an odd block index. A column has
  \<open>MlasQNBitZeroPointsForBlksSizeInBytes BlockCountK\<close> bytes of zero-points.
\<close>

definition QuantBZeroPointAt :: "byte list option \<Rightarrow> nat \<Rightarrow> nat \<Rightarrow> nat \<Rightarrow> byte" where
  "QuantBZeroPointAt QuantBZeroPoint BlockCountK n b =
     (case QuantBZeroPoint of
        None \<Rightarrow> 8
      | Some Z \<Rightarrow>
          let zp_packed = Z ! (n * MlasQNBitZeroPointsForBlksSizeInBytes BlockCountK + b div 2)
          in if even b then zp_packed AND 0x0F else drop_bit 4 zp_packed)"

text \<open>
  The integer dot product of block \<open>b\<close> of row \<open>m\<close> of the quantized A with block \<open>b\<close> of
  column \<open>n\<close> of B, the codes of B taken at their logical positions in the packed buffer
  and the zero-point subtracted.
\<close>

definition CompInt8_BlockDot ::
  "nat \<Rightarrow> Q8Blk list \<Rightarrow> byte list \<Rightarrow> byte list option \<Rightarrow> nat \<Rightarrow> nat \<Rightarrow> nat \<Rightarrow> nat \<Rightarrow> int" where
  "CompInt8_BlockDot BlkLen QuantA QuantBData QuantBZeroPoint BlockCountK m n b =
     (\<Sum>i \<leftarrow> [0..<BlkLen].
        sint (Q8BlkData (QuantA ! (m * BlockCountK + b)) ! i) *
        (uint (PackedQuantBCode (PackSubBlkLen CompInt8 BlkLen) QuantBData
                 ((n * BlockCountK + b) * BlkLen + i)) -
         uint (QuantBZeroPointAt QuantBZeroPoint BlockCountK n b)))"

text \<open>
  The value of the output element of row \<open>m\<close> and column \<open>n\<close>: over the blocks, the sum
  of the dot products, each converted to a float and multiplied by the scales of its two
  blocks, and the bias of the column where there is a bias.
\<close>

definition CompInt8_Reference ::
  "nat \<Rightarrow> Q8Blk list \<Rightarrow> byte list \<Rightarrow> real list \<Rightarrow> byte list option \<Rightarrow> nat \<Rightarrow>
   real list option \<Rightarrow> nat \<Rightarrow> nat \<Rightarrow> real" where
  "CompInt8_Reference BlkLen QuantA QuantBData QuantBScale QuantBZeroPoint BlockCountK Bias m n =
     (\<Sum>b \<leftarrow> [0..<BlockCountK].
        (Q8BlkScale (QuantA ! (m * BlockCountK + b)) * QuantBScale ! (n * BlockCountK + b)) *
        real_of_int (CompInt8_BlockDot BlkLen QuantA QuantBData QuantBZeroPoint BlockCountK m n b))
     + (case Bias of None \<Rightarrow> 0 | Some bias \<Rightarrow> bias ! n)"

section \<open>An input with zero-points in both nibbles\<close>

text \<open>
  Two rows of A of two blocks of 64 codes, every code 1 and every scale 1; three columns of
  B of two blocks, every code 0 and every scale 1; and for every column the zero-point 1
  for block 0 and 2 for block 1, the byte \<open>0x21\<close>.
\<close>

definition Example_QuantA :: "Q8Blk list" where
  "Example_QuantA = replicate 4 \<lparr>Q8BlkScale = 1, Q8BlkData = replicate 64 1\<rparr>"

definition Example_QuantBData :: "byte list" where
  "Example_QuantBData = replicate 192 0"

definition Example_QuantBScale :: "real list" where
  "Example_QuantBScale = replicate 6 1"

definition Example_QuantBZeroPoint :: "byte list" where
  "Example_QuantBZeroPoint = replicate 3 0x21"

definition Example_Buffers :: CompInt8_Buffers where
  "Example_Buffers =
     \<lparr>QuantBDataBuf = Example_QuantBData, QuantBScaleBuf = Example_QuantBScale,
      QuantBZeroPointBuf = Example_QuantBZeroPoint, BiasBuf = [],
      QuantABuf = Example_QuantA\<rparr>"

section \<open>The float kernel\<close>

text \<open>
  \<open>vreinterpretq_f32_u32\<close> reads 32 bits as a float: a sign bit, 8 bits of exponent and
  23 bits of mantissa. Only finite values are modelled; the kernel forms no others.
\<close>

definition f32_of_bits :: "32 word \<Rightarrow> real" where
  "f32_of_bits w =
     (let e = unat (take_bit 8 (drop_bit 23 w));
          m = unat (take_bit 23 w);
          mag = (if e = 0 then real m * 2 / 2 ^ 150 else (2 ^ 23 + real m) * 2 ^ e / 2 ^ 150)
      in if bit w 31 then - mag else mag)"

type_synonym uint16x8_t = "16 word list"
type_synonym uint32x4_t = "32 word list"

definition float_high_half_template :: "16 word" where
  "float_high_half_template = 0x4180"

definition fp32_conversion_offset :: real where
  "fp32_conversion_offset = 16"

definition vdupq_n_u16 :: "16 word \<Rightarrow> uint16x8_t" where
  "vdupq_n_u16 x = replicate 8 x"

definition vshll_n_u8 :: "uint8x8_t \<Rightarrow> nat \<Rightarrow> uint16x8_t" where
  "vshll_n_u8 v n = map (\<lambda>l. push_bit n (ucast (v ! l))) [0..<8]"

definition vorrq_u16 :: "uint16x8_t \<Rightarrow> uint16x8_t \<Rightarrow> uint16x8_t" where
  "vorrq_u16 a b = map (\<lambda>l. a ! l OR b ! l) [0..<8]"

definition vget_low_u16 :: "uint16x8_t \<Rightarrow> 16 word list" where
  "vget_low_u16 v = map (\<lambda>l. v ! l) [0..<4]"

definition vshll_n_u16 :: "16 word list \<Rightarrow> nat \<Rightarrow> uint32x4_t" where
  "vshll_n_u16 v n = map (\<lambda>l. push_bit n (ucast (v ! l))) [0..<4]"

definition vshll_high_n_u16 :: "uint16x8_t \<Rightarrow> nat \<Rightarrow> uint32x4_t" where
  "vshll_high_n_u16 v n = map (\<lambda>l. push_bit n (ucast (v ! (l + 4)))) [0..<4]"

definition vreinterpretq_f32_u32 :: "uint32x4_t \<Rightarrow> float32x4_t" where
  "vreinterpretq_f32_u32 v = map (\<lambda>l. f32_of_bits (v ! l)) [0..<4]"

definition vsubq_f32 :: "float32x4_t \<Rightarrow> float32x4_t \<Rightarrow> float32x4_t" where
  "vsubq_f32 a b = map (\<lambda>l. a ! l - b ! l) [0..<4]"

definition vmulq_f32 :: "float32x4_t \<Rightarrow> float32x4_t \<Rightarrow> float32x4_t" where
  "vmulq_f32 a b = map (\<lambda>l. a ! l * b ! l) [0..<4]"

definition vst1q_f32 :: "real list \<Rightarrow> nat \<Rightarrow> float32x4_t \<Rightarrow> real list" where
  "vst1q_f32 dst p v = fold (\<lambda>l d. d[p + l := v ! l]) [0..<4] dst"

definition vzip1q_f32 :: "float32x4_t \<Rightarrow> float32x4_t \<Rightarrow> float32x4_t" where
  "vzip1q_f32 a b = [a ! 0, b ! 0, a ! 1, b ! 1]"

definition vzip2q_f32 :: "float32x4_t \<Rightarrow> float32x4_t \<Rightarrow> float32x4_t" where
  "vzip2q_f32 a b = [a ! 2, b ! 2, a ! 3, b ! 3]"

text \<open>A register of two 64-bit lanes that holds four floats: each lane is a pair of floats.\<close>

type_synonym float64x2_t = "(real \<times> real) list"

definition vreinterpretq_f64_f32 :: "float32x4_t \<Rightarrow> float64x2_t" where
  "vreinterpretq_f64_f32 v = [(v ! 0, v ! 1), (v ! 2, v ! 3)]"

definition vreinterpretq_f32_f64 :: "float64x2_t \<Rightarrow> float32x4_t" where
  "vreinterpretq_f32_f64 d = [fst (d ! 0), snd (d ! 0), fst (d ! 1), snd (d ! 1)]"

definition vzip1q_f64 :: "float64x2_t \<Rightarrow> float64x2_t \<Rightarrow> float64x2_t" where
  "vzip1q_f64 a b = [a ! 0, b ! 0]"

definition vzip2q_f64 :: "float64x2_t \<Rightarrow> float64x2_t \<Rightarrow> float64x2_t" where
  "vzip2q_f64 a b = [a ! 1, b ! 1]"

definition Transpose4x4 ::
  "float32x4_t \<Rightarrow> float32x4_t \<Rightarrow> float32x4_t \<Rightarrow> float32x4_t \<Rightarrow>
   float32x4_t \<times> float32x4_t \<times> float32x4_t \<times> float32x4_t" where
  "Transpose4x4 a0 a1 a2 a3 =
     (let b0 = vzip1q_f32 a0 a1;
          b1 = vzip2q_f32 a0 a1;
          b2 = vzip1q_f32 a2 a3;
          b3 = vzip2q_f32 a2 a3;
          a0 = vreinterpretq_f32_f64 (vzip1q_f64 (vreinterpretq_f64_f32 b0) (vreinterpretq_f64_f32 b2));
          a1 = vreinterpretq_f32_f64 (vzip2q_f64 (vreinterpretq_f64_f32 b0) (vreinterpretq_f64_f32 b2));
          a2 = vreinterpretq_f32_f64 (vzip1q_f64 (vreinterpretq_f64_f32 b1) (vreinterpretq_f64_f32 b3));
          a3 = vreinterpretq_f32_f64 (vzip2q_f64 (vreinterpretq_f64_f32 b1) (vreinterpretq_f64_f32 b3))
      in (a0, a1, a2, a3))"

definition FoldAccumulators ::
  "float32x4_t \<Rightarrow> float32x4_t \<Rightarrow> float32x4_t \<Rightarrow> float32x4_t \<Rightarrow> float32x4_t" where
  "FoldAccumulators a0 a1 a2 a3 =
     (case Transpose4x4 a0 a1 a2 a3 of (a0, a1, a2, a3) \<Rightarrow>
        vaddq_f32 (vaddq_f32 a0 a1) (vaddq_f32 a2 a3))"

record CompFp32_Buffers = QuantB_Buffers +
  ABuf :: "real list"

text \<open>
  \<open>ComputeDotProducts_BlkBitWidth4_CompFp32\<close>: the body of the loop over the sub-blocks
  of 16 codes of a block. \<open>NCols\<close> is the template parameter, 1 or 4; \<open>acc\<close>, \<open>scale\<close>
  and \<open>offset\<close> have one entry for each of the \<open>NCols\<close> columns. The pointer \<open>QuantBData\<close>
  is at the block, in the first of the columns.
\<close>

definition ComputeDotProducts_subblk ::
  "nat \<Rightarrow> bool \<Rightarrow> CompFp32_Buffers \<Rightarrow> nat \<Rightarrow> nat \<Rightarrow> nat \<Rightarrow> real list \<Rightarrow> real list \<Rightarrow>
   nat \<Rightarrow> nat \<Rightarrow> nat \<Rightarrow> float32x4_t list \<Rightarrow> float32x4_t list" where
  "ComputeDotProducts_subblk NCols HasZeroPoint M ARowPtr QuantBData StrideQuantBData scale offset
     k k_blk_len k_idx_in_blk acc =
     (let BlkBitWidth = 4;
          SubBlkLen = 16;
          LowMask = vdup_n_u8 0x0F;
          k_subblk_len = min (k_blk_len - k_idx_in_blk) SubBlkLen;
          av = LoadFloatData (ABuf M) (ARowPtr + k + k_idx_in_blk) k_subblk_len (zero_f32x4 4);
          b_data_block_offset = k_idx_in_blk * BlkBitWidth div 8;
          bv_packed = map (\<lambda>i. vld1_u8 (QuantBDataBuf M)
                             (QuantBData + i * StrideQuantBData + b_data_block_offset))
                        [0..<NCols];
          bv_u8 = map (\<lambda>i. [vand_u8 (bv_packed ! i) LowMask, vshr_n_u8 (bv_packed ! i) 4])
                    [0..<NCols];
          bv_u16 = map (\<lambda>i. [vshll_n_u8 (bv_u8 ! i ! 0) 3, vshll_n_u8 (bv_u8 ! i ! 1) 3])
                     [0..<NCols];
          bv_u16 = map (\<lambda>i. [vorrq_u16 (bv_u16 ! i ! 0) (vdupq_n_u16 float_high_half_template),
                               vorrq_u16 (bv_u16 ! i ! 1) (vdupq_n_u16 float_high_half_template)])
                     [0..<NCols];
          bv = map (\<lambda>i. [vreinterpretq_f32_u32 (vshll_n_u16 (vget_low_u16 (bv_u16 ! i ! 0)) 16),
                           vreinterpretq_f32_u32 (vshll_high_n_u16 (bv_u16 ! i ! 0) 16),
                           vreinterpretq_f32_u32 (vshll_n_u16 (vget_low_u16 (bv_u16 ! i ! 1)) 16),
                           vreinterpretq_f32_u32 (vshll_high_n_u16 (bv_u16 ! i ! 1) 16)])
                 [0..<NCols];
          bv = (if HasZeroPoint then
                  map (\<lambda>i. map (\<lambda>j. vsubq_f32 (bv ! i ! j) (vdupq_n_f32 (offset ! i))) [0..<4])
                    [0..<NCols]
                else
                  map (\<lambda>i. map (\<lambda>j. vsubq_f32 (bv ! i ! j)
                                        (vdupq_n_f32 (fp32_conversion_offset + 8))) [0..<4])
                    [0..<NCols]);
          bv = map (\<lambda>i. map (\<lambda>j. vmulq_f32 (bv ! i ! j) (vdupq_n_f32 (scale ! i))) [0..<4])
                 [0..<NCols]
      in fold (\<lambda>j acc. map (\<lambda>i. vfmaq_f32 (acc ! i) (av ! j) (bv ! i ! j)) [0..<NCols])
           [0..<4] acc)"

function ComputeDotProducts_subloop ::
  "nat \<Rightarrow> bool \<Rightarrow> CompFp32_Buffers \<Rightarrow> nat \<Rightarrow> nat \<Rightarrow> nat \<Rightarrow> real list \<Rightarrow> real list \<Rightarrow>
   nat \<Rightarrow> nat \<Rightarrow> nat \<Rightarrow> float32x4_t list \<Rightarrow> float32x4_t list" where
  "ComputeDotProducts_subloop NCols HasZeroPoint M ARowPtr QuantBData StrideQuantBData scale offset
     k k_blk_len k_idx_in_blk acc =
     (if k_idx_in_blk < k_blk_len then
        ComputeDotProducts_subloop NCols HasZeroPoint M ARowPtr QuantBData StrideQuantBData scale
          offset k k_blk_len (k_idx_in_blk + 16)
          (ComputeDotProducts_subblk NCols HasZeroPoint M ARowPtr QuantBData StrideQuantBData scale
             offset k k_blk_len k_idx_in_blk acc)
      else acc)"
  by pat_completeness auto
termination
  by (relation "measure (\<lambda>(n, h, M, a, q, s, sc, off, k, len, i, acc). len - i)") auto

declare ComputeDotProducts_subloop.simps [simp del]

text \<open>
  The body of the loop over the blocks: the scales and the offsets of the block in the
  \<open>NCols\<close> columns, and its sub-blocks. Without zero-points the offsets are not used.
\<close>

definition ComputeDotProducts_blk ::
  "nat \<Rightarrow> bool \<Rightarrow> nat \<Rightarrow> CompFp32_Buffers \<Rightarrow> nat \<Rightarrow> nat \<Rightarrow> nat \<Rightarrow> nat \<Rightarrow> nat \<Rightarrow> nat \<Rightarrow>
   nat \<Rightarrow> nat \<Rightarrow> nat \<Rightarrow> nat \<Rightarrow> float32x4_t list \<Rightarrow> float32x4_t list" where
  "ComputeDotProducts_blk NCols HasZeroPoint BlkLen M ARowPtr QuantBZeroPointColPtr CountK
     StrideQuantBData StrideQuantBScale StrideQuantBZeroPoint k QuantBData QuantBScale
     QuantBZeroPointIdx acc =
     (let k_blk_len = min (CountK - k) BlkLen;
          scale = map (\<lambda>i. QuantBScaleBuf M ! (QuantBScale + i * StrideQuantBScale)) [0..<NCols];
          offset = (if HasZeroPoint then
                      map (\<lambda>i. let zp_packed = QuantBZeroPointBuf M !
                                        (QuantBZeroPointColPtr + i * StrideQuantBZeroPoint +
                                         QuantBZeroPointIdx div 2);
                                    zp = (if odd QuantBZeroPointIdx then drop_bit 4 zp_packed
                                          else zp_packed AND 0x0F)
                                in fp32_conversion_offset + real (unat zp)) [0..<NCols]
                    else [])
      in ComputeDotProducts_subloop NCols HasZeroPoint M ARowPtr QuantBData StrideQuantBData scale
           offset k k_blk_len 0 acc)"

text \<open>
  The loop \<open>for (k = 0; k < CountK; k += BlkLen)\<close> over the blocks. The source asserts
  \<open>BlkLen >= SubBlkLen\<close>; with \<open>BlkLen = 0\<close> and \<open>0 < CountK\<close> its loop does not
  end, and the loop here stops at once: its properties below all assume \<open>0 < BlkLen\<close>.
\<close>

function ComputeDotProducts_blkloop ::
  "nat \<Rightarrow> bool \<Rightarrow> nat \<Rightarrow> CompFp32_Buffers \<Rightarrow> nat \<Rightarrow> nat \<Rightarrow> nat \<Rightarrow> nat \<Rightarrow> nat \<Rightarrow> nat \<Rightarrow>
   nat \<Rightarrow> nat \<Rightarrow> nat \<Rightarrow> nat \<Rightarrow> float32x4_t list \<Rightarrow> float32x4_t list" where
  "ComputeDotProducts_blkloop NCols HasZeroPoint BlkLen M ARowPtr QuantBZeroPointColPtr CountK
     StrideQuantBData StrideQuantBScale StrideQuantBZeroPoint k QuantBData QuantBScale
     QuantBZeroPointIdx acc =
     (if k < CountK \<and> 0 < BlkLen then
        ComputeDotProducts_blkloop NCols HasZeroPoint BlkLen M ARowPtr QuantBZeroPointColPtr CountK
          StrideQuantBData StrideQuantBScale StrideQuantBZeroPoint
          (k + BlkLen)
          (QuantBData + MlasQNBitBlkDataSizeInBytes 4 BlkLen)
          (QuantBScale + 1)
          (if HasZeroPoint then QuantBZeroPointIdx + 1 else QuantBZeroPointIdx)
          (ComputeDotProducts_blk NCols HasZeroPoint BlkLen M ARowPtr QuantBZeroPointColPtr CountK
             StrideQuantBData StrideQuantBScale StrideQuantBZeroPoint k QuantBData QuantBScale
             QuantBZeroPointIdx acc)
      else acc)"
  by pat_completeness auto
termination
  by (relation "measure (\<lambda>(n, h, b, M, a, z, c, s1, s2, s3, k, q, s, i, acc). c - k)") auto

declare ComputeDotProducts_blkloop.simps [simp del]

definition ComputeDotProducts_BlkBitWidth4_CompFp32 ::
  "nat \<Rightarrow> bool \<Rightarrow> nat \<Rightarrow> CompFp32_Buffers \<Rightarrow> nat \<Rightarrow> nat \<Rightarrow> nat \<Rightarrow> nat \<Rightarrow> real list \<Rightarrow> nat \<Rightarrow>
   nat \<Rightarrow> nat \<Rightarrow> nat \<Rightarrow> nat \<Rightarrow> nat option \<Rightarrow> real list" where
  "ComputeDotProducts_BlkBitWidth4_CompFp32 NCols HasZeroPoint BlkLen M ARowPtr QuantBDataColPtr
     QuantBScaleColPtr QuantBZeroPointColPtr C SumPtr CountK StrideQuantBData StrideQuantBScale
     StrideQuantBZeroPoint BiasPtr =
     (let acc = ComputeDotProducts_blkloop NCols HasZeroPoint BlkLen M ARowPtr
                  QuantBZeroPointColPtr CountK StrideQuantBData StrideQuantBScale
                  StrideQuantBZeroPoint 0 QuantBDataColPtr QuantBScaleColPtr 0
                  (zero_f32x4 NCols)
      in if NCols = 4 then
           let sum = FoldAccumulators (acc ! 0) (acc ! 1) (acc ! 2) (acc ! 3);
               sum = (case BiasPtr of
                        None \<Rightarrow> sum
                      | Some b \<Rightarrow> vaddq_f32 sum (vld1q_f32 (BiasBuf M) b))
           in vst1q_f32 C SumPtr sum
         else
           fold (\<lambda>i C. let C = C[SumPtr + i := vaddvq_f32 (acc ! i)]
                        in case BiasPtr of
                             None \<Rightarrow> C
                           | Some b \<Rightarrow> C[SumPtr + i := C ! (SumPtr + i) + BiasBuf M ! (b + i)])
             [0..<NCols] C)"








text \<open>
  Helpers for the properties of the float kernel: the code at position \<open>e\<close> of the
  sub-block of 16 codes whose 8 bytes start at \<open>p\<close>, and the product that the kernel
  adds for that position.
\<close>

definition QuantBNibble :: "byte list \<Rightarrow> nat \<Rightarrow> nat \<Rightarrow> byte" where
  "QuantBNibble D p e = (if e < 8 then D ! (p + e) AND 0x0F else drop_bit 4 (D ! (p + e - 8)))"









section \<open>Properties\<close>

section \<open>Nibbles of a byte\<close>

lemma and_15_take_bit: "(x::byte) AND 0x0F = take_bit 4 x"
proof -
  have "(0x0F::byte) = mask 4" by (simp add: mask_eq_exp_minus_1)
  then show ?thesis by (simp add: take_bit_eq_mask)
qed

lemma bit_byte_high: "bit (a::byte) (4 + n) \<Longrightarrow> n < 4"
  by (drule bit_imp_le_length) simp

lemma nib_lo_lo: "((a AND 0x0F) OR push_bit 4 (b AND 0x0F)) AND (0x0F::byte) = a AND 0x0F"
  unfolding and_15_take_bit by (rule bit_word_eqI) (auto simp: bit_simps)

lemma nib_hi_lo: "drop_bit 4 ((a AND 0x0F) OR push_bit 4 (b AND (0x0F::byte))) = b AND 0x0F"
  unfolding and_15_take_bit by (rule bit_word_eqI) (auto simp: bit_simps dest: bit_byte_high)

lemma nib_lo_hi: "(drop_bit 4 a OR push_bit 4 (drop_bit 4 b)) AND (0x0F::byte) = drop_bit 4 a"
  unfolding and_15_take_bit by (rule bit_word_eqI) (auto simp: bit_simps dest: bit_byte_high)

lemma nib_hi_hi: "drop_bit 4 (drop_bit 4 a OR push_bit 4 (drop_bit 4 (b::byte))) = drop_bit 4 b"
  unfolding and_15_take_bit by (rule bit_word_eqI) (auto simp: bit_simps dest: bit_byte_high)

lemma nib_join: "(a AND 0x0F) OR push_bit 4 (drop_bit 4 a) = (a::byte)"
  unfolding and_15_take_bit
  apply (rule bit_word_eqI)
  subgoal for n by (cases "n < 4") (auto simp: bit_simps)
  done

section \<open>What packing stores\<close>


lemma PackBytePairs_length [simp]:
  "length (PackBytePairs c s Q q p i P) = length P"
  by (induction c s Q q p i P rule: PackBytePairs.induct)
     (subst PackBytePairs.simps, simp add: Let_def)

lemma PackBytePairs_nth:
  "j < length P \<Longrightarrow>
   PackBytePairs c s Q q p i P ! j =
     (if p + 2 * i \<le> j \<and> j < p + 2 * c then pack_byte s Q q (j - p) else P ! j)"
proof (induction c s Q q p i P rule: PackBytePairs.induct)
  case (1 c s Q q p i P)
  show ?case
  proof (cases "i < c")
    case False
    then show ?thesis by (subst PackBytePairs.simps) auto
  next
    case True
    let ?P' = "P[p + 2 * i := (Q ! (q + i) AND 0x0F) OR push_bit 4 (Q ! (q + i + s div 2) AND 0x0F),
                 p + 2 * i + 1 := drop_bit 4 (Q ! (q + i)) OR push_bit 4 (drop_bit 4 (Q ! (q + i + s div 2)))]"
    have step: "PackBytePairs c s Q q p i P = PackBytePairs c s Q q p (i + 1) ?P'"
      using True by (subst PackBytePairs.simps) (simp add: Let_def)
    have IH: "PackBytePairs c s Q q p (i + 1) ?P' ! j =
        (if p + 2 * (i + 1) \<le> j \<and> j < p + 2 * c then pack_byte s Q q (j - p) else ?P' ! j)"
      using "1.IH"[OF True refl refl refl refl] "1.prems" by simp
    consider "j = p + 2 * i" | "j = p + 2 * i + 1" | "j < p + 2 * i" | "p + 2 * (i + 1) \<le> j"
      by (cases "j < p + 2 * i"; cases "j = p + 2 * i"; cases "j = p + 2 * i + 1") auto
    then show ?thesis
    proof cases
      case 1
      then show ?thesis using True "1.prems" unfolding step IH
        by (simp add: pack_byte_def)
    next
      case 2
      then have "(j - p) div 2 = i" "odd (j - p)" by simp_all
      then show ?thesis using 2 True "1.prems" unfolding step IH
        by (simp add: pack_byte_def)
    next
      case 3
      then show ?thesis using True "1.prems" unfolding step IH by simp
    next
      case 4
      then show ?thesis using True "1.prems" unfolding step IH by simp
    qed
  qed
qed


lemma PackSubBlks_length [simp]:
  "length (PackSubBlks BlkLen L Q q p kk P) = length P"
  by (induction BlkLen L Q q p kk P rule: PackSubBlks.induct)
     (subst PackSubBlks.simps, simp add: Let_def)

lemma PackSubBlks_nth:
  "0 < L \<Longrightarrow> 4 dvd L \<Longrightarrow> BlkLen = kk + m * L \<Longrightarrow> j < length P \<Longrightarrow>
   PackSubBlks BlkLen L Q q p kk P ! j =
     (if p \<le> j \<and> j < p + m * (L div 2)
      then pack_byte (L div 2) Q (q + ((j - p) div (L div 2)) * (L div 2)) ((j - p) mod (L div 2))
      else P ! j)"
proof (induction BlkLen L Q q p kk P arbitrary: m rule: PackSubBlks.induct)
  case (1 BlkLen L Q q p kk P)
  let ?SD = "L div 2"
  from \<open>4 dvd L\<close> \<open>0 < L\<close> have SD: "2 * (L div 4) = ?SD" "0 < ?SD"
    by (auto elim!: dvdE)
  show ?case
  proof (cases m)
    case 0
    then have "\<not> kk < BlkLen" using "1.prems" by simp
    then show ?thesis using 0 by (subst PackSubBlks.simps) auto
  next
    case (Suc m')
    then have lt: "kk < BlkLen \<and> 0 < L" using "1.prems" by simp
    let ?P' = "PackBytePairs (L div 4) ?SD Q q p 0 P"
    have step: "PackSubBlks BlkLen L Q q p kk P =
        PackSubBlks BlkLen L Q (q + ?SD) (p + ?SD) (kk + L) ?P'"
      using lt by (subst PackSubBlks.simps) (simp add: Let_def)
    have eq: "BlkLen = kk + L + m' * L" using "1.prems" Suc by simp
    have IH: "PackSubBlks BlkLen L Q (q + ?SD) (p + ?SD) (kk + L) ?P' ! j =
        (if p + ?SD \<le> j \<and> j < p + ?SD + m' * ?SD
         then pack_byte ?SD Q (q + ?SD + ((j - (p + ?SD)) div ?SD) * ?SD) ((j - (p + ?SD)) mod ?SD)
         else ?P' ! j)"
      using "1.IH"[OF lt refl refl refl \<open>0 < L\<close> \<open>4 dvd L\<close> eq] "1.prems" by simp
    have P': "?P' ! j = (if p \<le> j \<and> j < p + ?SD then pack_byte ?SD Q q (j - p) else P ! j)"
      using PackBytePairs_nth[of j P "L div 4" ?SD Q q p 0] "1.prems" SD by simp
    show ?thesis
    proof (cases "p + ?SD \<le> j")
      case True
      then have d: "(j - p) div ?SD = Suc ((j - (p + ?SD)) div ?SD)"
        "(j - p) mod ?SD = (j - (p + ?SD)) mod ?SD"
        using SD(2) by (simp_all add: le_div_geq le_mod_geq)
      have q: "q + ?SD + ((j - (p + ?SD)) div ?SD) * ?SD = q + ((j - p) div ?SD) * ?SD"
        unfolding d by simp
      have r: "j < p + ?SD + m' * ?SD \<longleftrightarrow> j < p + m * ?SD"
        using Suc by (simp add: add.assoc)
      have "PackSubBlks BlkLen L Q q p kk P ! j =
         (if j < p + m * ?SD
          then pack_byte ?SD Q (q + ((j - p) div ?SD) * ?SD) ((j - p) mod ?SD)
          else P ! j)"
        unfolding step IH q r d(2)[symmetric] P' using True SD(2) by simp
      then show ?thesis using True SD(2) by simp
    next
      case False
      then have j: "\<not> (p + ?SD \<le> j \<and> j < p + ?SD + m' * ?SD)" by simp
      have small: "j < p + ?SD" using False by simp
      then have "j - p < ?SD" using SD(2) by arith
      then have z: "(j - p) div ?SD = 0" "(j - p) mod ?SD = j - p" by simp_all
      have r: "j < p + m * ?SD \<longleftrightarrow> j < p + ?SD" using small Suc by simp
      show ?thesis unfolding step IH if_not_P[OF j] P' z r by simp
    qed
  qed
qed


lemma PackBlock_length [simp]:
  "length (PackBlock BC BDS BlkLen L Q tid P) = length P"
  by (simp add: PackBlock_def Let_def)

lemma PackBlock_nth:
  assumes L: "0 < L" "4 dvd L" and B: "BlkLen = m * L" and BDS: "BDS = m * (L div 2)"
    and BC: "0 < BC" and j: "j < length P"
  shows "PackBlock BC BDS BlkLen L Q tid P ! j =
     (if tid * BDS \<le> j \<and> j < Suc tid * BDS then packed_at (L div 2) Q j else P ! j)"
proof -
  let ?SD = "L div 2"
  have SD: "0 < ?SD" using L by (auto elim!: dvdE)
  have off: "tid div BC * BC * BDS + tid mod BC * BDS = tid * BDS"
    by (metis add_mult_distrib div_mult_mod_eq)
  have nth: "PackBlock BC BDS BlkLen L Q tid P ! j =
     (if tid * BDS \<le> j \<and> j < tid * BDS + m * ?SD
      then pack_byte ?SD Q (tid * BDS + ((j - tid * BDS) div ?SD) * ?SD) ((j - tid * BDS) mod ?SD)
      else P ! j)"
    unfolding PackBlock_def Let_def off
    using PackSubBlks_nth[OF L(1) L(2) _ j, of BlkLen 0 m Q "tid * BDS" "tid * BDS"] B by simp
  show ?thesis
  proof (cases "tid * BDS \<le> j \<and> j < Suc tid * BDS")
    case False
    then show ?thesis unfolding nth using BDS by auto
  next
    case True
    then obtain d where d: "j = tid * BDS + d" by (auto simp: le_iff_add)
    have c: "tid * BDS = (tid * m) * ?SD" unfolding BDS by simp
    define c where "c = tid * m"
    note c = c[folded c_def]
    have 1: "j mod ?SD = (j - tid * BDS) mod ?SD" unfolding d c by simp
    have 2: "j div ?SD * ?SD = tid * BDS + (j - tid * BDS) div ?SD * ?SD"
      unfolding d c using SD by (simp add: add_mult_distrib)
    show ?thesis unfolding nth packed_at_def 1 2 using True BDS by simp
  qed
qed

lemma fold_PackBlock_length [simp]:
  "length (fold (PackBlock BC BDS BlkLen L Q) [0..<I] P) = length P"
  by (induction I) simp_all

lemma fold_PackBlock_nth:
  assumes L: "0 < L" "4 dvd L" and B: "BlkLen = m * L" and BDS: "BDS = m * (L div 2)"
    and BC: "0 < BC" and j: "j < length P"
  shows "fold (PackBlock BC BDS BlkLen L Q) [0..<I] P ! j =
     (if j < I * BDS then packed_at (L div 2) Q j else P ! j)"
proof (induction I)
  case 0
  show ?case by simp
next
  case (Suc I)
  have j': "j < length (fold (PackBlock BC BDS BlkLen L Q) [0..<I] P)" using j by simp
  show ?case
    using PackBlock_nth[OF L B BDS BC j', of Q I] Suc by auto
qed

section \<open>Unpacking what was packed\<close>


lemma packed_at_even:
  assumes "0 < SD" "even SD" "r < SD div 2"
  shows "packed_at SD X (c * SD + 2 * r) =
           (X ! (c * SD + r) AND 0x0F) OR push_bit 4 (X ! (c * SD + r + SD div 2) AND 0x0F)"
proof -
  have lt: "2 * r < SD" using assms by (auto elim!: evenE)
  then have "(c * SD + 2 * r) div SD = c" "(c * SD + 2 * r) mod SD = 2 * r"
    using assms(1) by simp_all
  then show ?thesis by (simp add: packed_at_def pack_byte_def)
qed

lemma packed_at_odd:
  assumes "0 < SD" "even SD" "r < SD div 2"
  shows "packed_at SD X (c * SD + 2 * r + 1) =
           drop_bit 4 (X ! (c * SD + r)) OR push_bit 4 (drop_bit 4 (X ! (c * SD + r + SD div 2)))"
proof -
  have lt: "2 * r + 1 < SD" using assms by (auto elim!: evenE)
  have d: "(c * SD + 2 * r + 1) div SD = c"
    by (rule div_nat_eqI) (use lt in \<open>simp_all add: mult.commute\<close>)
  have "(c * SD + 2 * r + 1) mod SD = c * SD + 2 * r + 1 - SD * ((c * SD + 2 * r + 1) div SD)"
    by (simp only: minus_mult_div_eq_mod)
  then have "(c * SD + 2 * r + 1) div SD = c" "(c * SD + 2 * r + 1) mod SD = 2 * r + 1"
    unfolding d by (simp_all add: mult.commute)
  then show ?thesis by (simp add: packed_at_def pack_byte_def)
qed

lemma UnpackByte_packed:
  assumes SD: "0 < SD" "even SD" and len: "length P = M * SD" and j: "j < length P"
    and P: "\<And>i. i < length P \<Longrightarrow> P ! i = packed_at SD X i"
  shows "UnpackByte SD P j = X ! j"
proof -
  define c where "c = j div SD"
  define r where "r = j mod SD"
  have jc: "j = c * SD + r" by (simp add: c_def r_def)
  have r: "r < SD" using SD by (simp add: r_def)
  have "c < M" using j len SD unfolding c_def by (simp add: less_mult_imp_div_less)
  then have "Suc c \<le> M" by simp
  then have "Suc c * SD \<le> M * SD" by (rule mult_le_mono1)
  then have top: "c * SD + SD \<le> length P" using len by simp
  obtain h where h: "SD = 2 * h" using SD(2) by (auto elim!: evenE)
  show ?thesis
  proof (cases "r < SD div 2")
    case True
    have i1: "c * SD + 2 * r < length P" "c * SD + 2 * r + 1 < length P"
      using True top h by simp_all
    have "UnpackByte SD P j =
        (P ! (c * SD + 2 * r) AND 0x0F) OR push_bit 4 (P ! (c * SD + 2 * r + 1) AND 0x0F)"
      using True by (simp add: UnpackByte_def c_def r_def Let_def)
    also have "\<dots> = X ! (c * SD + r)"
      unfolding P[OF i1(1)] P[OF i1(2)] packed_at_even[OF SD True] packed_at_odd[OF SD True]
        nib_lo_lo nib_lo_hi nib_join ..
    finally show ?thesis using jc by simp
  next
    case False
    define r' where "r' = r - SD div 2"
    have r': "r' < SD div 2" "r = r' + SD div 2" using False r h by (simp_all add: r'_def)
    have i1: "c * SD + 2 * r' < length P" "c * SD + 2 * r' + 1 < length P"
      using r' top h by simp_all
    have "UnpackByte SD P j =
        drop_bit 4 (P ! (c * SD + 2 * r')) OR push_bit 4 (drop_bit 4 (P ! (c * SD + 2 * r' + 1)))"
      using False by (simp add: UnpackByte_def c_def[symmetric] r_def[symmetric] r'_def Let_def)
    also have "\<dots> = X ! (c * SD + r' + SD div 2)"
      unfolding P[OF i1(1)] P[OF i1(2)] packed_at_even[OF SD r'(1)] packed_at_odd[OF SD r'(1)]
        nib_hi_lo nib_hi_hi nib_join ..
    finally show ?thesis using jc r' by (simp add: add.assoc)
  qed
qed

lemma PackedQuantBCode_packed:
  assumes L: "0 < L" "4 dvd L" and len: "length P = M * (L div 2)" and i: "i < M * L"
    and P: "\<And>i. i < length P \<Longrightarrow> P ! i = packed_at (L div 2) X i"
  shows "PackedQuantBCode L P i = QuantBCode X i"
proof -
  let ?SD = "L div 2"
  obtain g where g: "L = 4 * g" "0 < g" using L by (auto elim!: dvdE)
  have SD: "0 < ?SD" "even ?SD" "?SD = 2 * g" "L = 2 * ?SD" using g by simp_all
  define s where "s = i div L"
  define r where "r = i mod L"
  have i_eq: "i = s * L + r" by (simp add: s_def r_def)
  have r: "r < L" using L by (simp add: r_def)
  have "s < M" using i L unfolding s_def by (simp add: less_mult_imp_div_less)
  then have "Suc s \<le> M" by simp
  then have "Suc s * ?SD \<le> M * ?SD" by (rule mult_le_mono1)
  then have top: "s * ?SD + ?SD \<le> length P" using len by simp
  have idiv: "i div 2 = s * ?SD + r div 2" proof -
    have "i = (s * ?SD) * 2 + r" using i_eq SD(4) by (metis mult.assoc mult.commute)
    then show ?thesis by simp
  qed
  have ev: "even i \<longleftrightarrow> even r" unfolding i_eq using g by simp
  define r0 where "r0 = r mod ?SD"
  have r0: "r0 < ?SD" using SD by (simp add: r0_def)
  then have idx: "s * ?SD + r0 < length P" using top by simp
  have pa: "packed_at ?SD X (s * ?SD + r0) = pack_byte ?SD X (s * ?SD) r0"
    using r0 SD(1) by (simp add: packed_at_def)
  have code: "PackedQuantBCode L P i =
      (if r < ?SD then pack_byte ?SD X (s * ?SD) r0 AND 0x0F
       else drop_bit 4 (pack_byte ?SD X (s * ?SD) r0))"
    by (simp add: PackedQuantBCode_def PackedQuantBByteIndex_def Let_def s_def[symmetric]
        r_def[symmetric] r0_def[symmetric] P[OF idx] pa)
  show ?thesis
  proof (cases "r < ?SD")
    case True
    then have "r0 = r" by (simp add: r0_def)
    then show ?thesis unfolding code QuantBCode_def idiv ev pack_byte_def Let_def
      using True by (simp only: nib_lo_lo nib_lo_hi if_True split: if_splits) simp
  next
    case False
    then have rr: "r = r0 + ?SD" using r SD(4) unfolding r0_def
      by (metis add.commute le_add_diff_inverse2 le_mod_geq linorder_not_less mod_less mult_2 nat_add_left_cancel_less)
    have "r div 2 = r0 div 2 + ?SD div 2" "even r \<longleftrightarrow> even r0"
      unfolding rr using SD(2,3) by simp_all
    then show ?thesis unfolding code QuantBCode_def idiv ev pack_byte_def Let_def
      using False by (simp only: nib_hi_lo nib_hi_hi if_False add.assoc split: if_splits) simp
  qed
qed

lemma MlasDivRoundup_cases:
  fixes up down :: nat
  assumes d: "0 < down"
  shows "MlasDivRoundup up down = (if up mod down = 0 then up div down else up div down + 1)"
proof -
  define q where "q = up div down"
  define r where "r = up mod down"
  have up: "up = q * down + r" and r: "r < down" using d by (simp_all add: q_def r_def)
  show ?thesis
  proof (cases "r = 0")
    case True
    then have "up + down - 1 = q * down + (down - 1)" using up d by simp
    moreover have "(q * down + (down - 1)) div down = q"
      by (rule div_nat_eqI) (use d in \<open>simp_all add: mult.commute\<close>)
    ultimately show ?thesis using True by (simp add: MlasDivRoundup_def q_def r_def)
  next
    case False
    then have "up + down - 1 = (q + 1) * down + (r - 1)" using up d by simp
    moreover have "((q + 1) * down + (r - 1)) div down = q + 1"
      by (rule div_nat_eqI) (use r in \<open>simp_all add: mult.commute\<close>)
    ultimately show ?thesis using False by (simp add: MlasDivRoundup_def q_def r_def)
  qed
qed

lemma MlasDivRoundup_ceiling:
  fixes up down :: nat
  assumes d: "0 < down"
  shows "MlasDivRoundup up down = nat \<lceil>real up / real down\<rceil>"
proof -
  define q where "q = up div down"
  define r where "r = up mod down"
  have up: "up = q * down + r" and r: "r < down" using d by (simp_all add: q_def r_def)
  have frac: "real up / real down = real q + real r / real down"
    using d unfolding up by (simp add: field_simps)
  show ?thesis
  proof (cases "r = 0")
    case True
    then have "\<lceil>real up / real down\<rceil> = int q" unfolding frac by simp
    then show ?thesis using True d by (simp add: MlasDivRoundup_cases q_def r_def)
  next
    case False
    have "0 < real r / real down" "real r / real down \<le> 1" using False r d by simp_all
    then have "\<lceil>real up / real down\<rceil> = int q + 1"
      unfolding frac by (intro ceiling_eq) simp_all
    then show ?thesis using False d by (simp add: MlasDivRoundup_cases q_def r_def)
  qed
qed

lemma Pack_nth:
  assumes B: "BlkLen \<in> {16, 32, 64, 128}"
    and len: "length P = N * MlasDivRoundup K BlkLen * MlasQNBitBlkDataSizeInBytes 4 BlkLen"
    and j: "j < length P"
  shows "SQ4BitGemmPackQuantBData N K BlkLen CT X P ! j =
           packed_at (PackSubBlkLen CT BlkLen div 2) X j"
proof -
  let ?L = "PackSubBlkLen CT BlkLen"
  let ?BC = "MlasDivRoundup K BlkLen"
  let ?BDS = "MlasQNBitBlkDataSizeInBytes 4 BlkLen"
  have L: "0 < ?L" "4 dvd ?L" by (simp_all add: PackSubBlkLen_def)
  obtain m where m: "BlkLen = m * ?L" "?BDS = m * (?L div 2)"
  proof (cases "?L = 16")
    case True
    have "BlkLen = (BlkLen div 16) * 16 \<and> BlkLen * 4 div 8 = (BlkLen div 16) * 8"
      using B by auto
    then show ?thesis using that[of "BlkLen div 16"] True
      by (simp add: MlasQNBitBlkDataSizeInBytes_def)
  next
    case False
    then have L32: "?L = 32" "BlkLen \<noteq> 16" by (auto simp: PackSubBlkLen_def split: if_splits)
    then have "BlkLen = (BlkLen div 32) * 32 \<and> BlkLen * 4 div 8 = (BlkLen div 32) * 16"
      using B by auto
    then show ?thesis using that[of "BlkLen div 32"] L32
      by (simp add: MlasQNBitBlkDataSizeInBytes_def)
  qed
  have size: "length P = N * ?BC * ?BDS"
    using len by simp
  then have BC: "0 < ?BC" using j by (cases "?BC = 0") auto
  have "SQ4BitGemmPackQuantBData N K BlkLen CT X P =
      fold (PackBlock ?BC ?BDS BlkLen ?L X) [0..<N * ?BC] P"
    by (simp add: SQ4BitGemmPackQuantBData_def PackSubBlkLen_def Let_def)
  then show ?thesis
    using fold_PackBlock_nth[OF L m BC j, of X "N * ?BC"] j size by simp
qed

lemma Pack_length [simp]:
  "length (SQ4BitGemmPackQuantBData N K BlkLen CT X P) = length P"
  by (simp add: SQ4BitGemmPackQuantBData_def Let_def)

lemma PackedQuantBByteIndex_block:
  assumes L: "0 < L" "even L" and m: "0 < m"
  shows "PackedQuantBByteIndex L i div (m * (L div 2)) = i div (m * L)"
proof -
  have SD: "0 < L div 2" using L by (auto elim!: evenE)
  have "(i div L * (L div 2) + i mod L mod (L div 2)) div (L div 2) = i div L"
    using SD by simp
  then have "PackedQuantBByteIndex L i div (L div 2 * m) = i div L div m"
    unfolding div_mult2_eq by (simp add: PackedQuantBByteIndex_def Let_def)
  also have "\<dots> = i div (L * m)" by (simp add: div_mult2_eq)
  finally show ?thesis by (simp add: mult.commute)
qed

lemma PackSubBlkLen_shape:
  assumes B: "BlkLen \<in> {16, 32, 64, 128}"
  obtains m where "0 < m" "BlkLen = m * PackSubBlkLen CT BlkLen"
    "MlasQNBitBlkDataSizeInBytes 4 BlkLen = m * (PackSubBlkLen CT BlkLen div 2)"
proof (cases "PackSubBlkLen CT BlkLen = 16")
  case True
  have "0 < BlkLen div 16 \<and> BlkLen = (BlkLen div 16) * 16 \<and> BlkLen * 4 div 8 = (BlkLen div 16) * 8"
    using B by auto
  then show ?thesis using that[of "BlkLen div 16"] True
    by (simp add: MlasQNBitBlkDataSizeInBytes_def)
next
  case False
  then have L32: "PackSubBlkLen CT BlkLen = 32" "BlkLen \<noteq> 16"
    by (auto simp: PackSubBlkLen_def split: if_splits)
  then have "0 < BlkLen div 32 \<and> BlkLen = (BlkLen div 32) * 32 \<and> BlkLen * 4 div 8 = (BlkLen div 32) * 16"
    using B by auto
  then show ?thesis using that[of "BlkLen div 32"] L32
    by (simp add: MlasQNBitBlkDataSizeInBytes_def)
qed

lemma MlasDivRoundup_size_t:
  fixes K BlkLen :: size_t
  assumes "unat K + unat BlkLen - 1 < 2 ^ 64"
  shows "unat (MlasDivRoundup K BlkLen) = MlasDivRoundup (unat K) (unat BlkLen)"
proof (cases "BlkLen = 0")
  case True
  then show ?thesis by (simp add: MlasDivRoundup_def unat_div)
next
  case False
  then have pos: "1 \<le> unat BlkLen" by (simp add: unat_eq_0 Suc_le_eq unat_gt_0)
  have m1: "unat (BlkLen - 1) = unat BlkLen - 1"
    using False by (simp add: unat_minus_one)
  have e: "K + BlkLen - 1 = K + (BlkLen - 1)" by simp
  have "unat K + unat (BlkLen - 1) < 2 ^ 64"
    using assms pos m1 by simp
  then have "unat (K + (BlkLen - 1)) = unat K + unat (BlkLen - 1)"
    by (simp add: unat_add_lem[THEN iffD1])
  then have "unat (K + BlkLen - 1) = unat K + unat BlkLen - 1"
    unfolding e using m1 pos by simp
  then show ?thesis by (simp add: MlasDivRoundup_def unat_div)
qed

lemma MlasQNBitBlkDataSizeInBytes_size_t:
  fixes BlkLen :: size_t
  assumes "unat BlkLen * 4 < 2 ^ 64"
  shows "unat (MlasQNBitBlkDataSizeInBytes 4 BlkLen) = unat BlkLen * 4 div 8"
proof -
  have "unat (BlkLen * 4) = unat BlkLen * 4"
    using assms by (simp add: unat_mult_lem[THEN iffD1])
  then show ?thesis by (simp add: MlasQNBitBlkDataSizeInBytes_def unat_div)
qed

text \<open>
  Claim C9, as stated. The query multiplies in \<open>size_t\<close>: for \<open>N = 2^61\<close>,
  \<open>K = 16\<close> and \<open>BlkLen = 16\<close> the product \<open>2^61 * 1 * 8\<close> wraps to 0, whereas
  \<open>N * ceil(K/BlkLen) * (BlkLen*4/8)\<close> is \<open>2^64\<close>.
\<close>

theorem SQ4BitGemmPackQuantBDataSize_wraps:
  "SQ4BitGemmPackQuantBDataSize (2 ^ 61) 16 16 CompFp32 = 0 \<and>
   SQ4BitGemmPackQuantBDataSize (2 ^ 61) 16 16 CompInt8 = 0 \<and>
   (2 ^ 61 :: nat) * nat \<lceil>real 16 / real 16\<rceil> * (16 * 4 div 8) = 2 ^ 64"
  by (simp add: SQ4BitGemmPackQuantBDataSize_def MlasDivRoundup_def
      MlasQNBitBlkDataSizeInBytes_def)

text \<open>
  Claim C9, amended. For a block length that is a positive multiple of 16, and when
  neither \<open>K + BlkLen - 1\<close>, nor \<open>BlkLen * 4\<close>, nor the product
  \<open>N * ceil(K/BlkLen) * (BlkLen*4/8)\<close> exceeds the range of \<open>size_t\<close>, the packed-size
  query returns \<open>N * ceil(K/BlkLen) * (BlkLen*4/8)\<close> bytes. It returns the same size for
  both compute types, whatever the arguments.
\<close>

theorem SQ4BitGemmPackQuantBDataSize_formula:
  assumes "0 < unat BlkLen" and "16 dvd unat BlkLen"
    and "unat K + unat BlkLen - 1 < 2 ^ 64"
    and "unat BlkLen * 4 < 2 ^ 64"
    and "unat N * nat \<lceil>real (unat K) / real (unat BlkLen)\<rceil> * (unat BlkLen * 4 div 8) < 2 ^ 64"
  shows "unat (SQ4BitGemmPackQuantBDataSize N K BlkLen ComputeType) =
           unat N * nat \<lceil>real (unat K) / real (unat BlkLen)\<rceil> * (unat BlkLen * 4 div 8) \<and>
         SQ4BitGemmPackQuantBDataSize N' K' BlkLen' CompFp32 =
           SQ4BitGemmPackQuantBDataSize N' K' BlkLen' CompInt8"
proof -
  let ?bc = "nat \<lceil>real (unat K) / real (unat BlkLen)\<rceil>"
  let ?sz = "unat BlkLen * 4 div 8"
  have bc: "unat (MlasDivRoundup K BlkLen) = ?bc"
    using MlasDivRoundup_size_t[OF assms(3)] MlasDivRoundup_ceiling[OF assms(1), of "unat K"]
    by simp
  have sz: "unat (MlasQNBitBlkDataSizeInBytes 4 BlkLen) = ?sz"
    by (rule MlasQNBitBlkDataSizeInBytes_size_t[OF assms(4)])
  have szpos: "0 < ?sz" using assms(1,2) by (auto elim!: dvdE)
  have "unat N * ?bc * 1 \<le> unat N * ?bc * ?sz"
    using szpos by (intro mult_le_mono2) simp
  then have "unat N * ?bc \<le> unat N * ?bc * ?sz" by (simp only: mult_1_right)
  from this assms(5) have nb: "unat N * ?bc < 2 ^ 64" by (rule le_less_trans)
  have 1: "unat (N * MlasDivRoundup K BlkLen) = unat N * ?bc"
    using nb bc by (simp add: unat_mult_lem[THEN iffD1])
  have 2: "unat (N * MlasDivRoundup K BlkLen * MlasQNBitBlkDataSizeInBytes 4 BlkLen) =
             unat N * ?bc * ?sz"
    using assms(5) 1 sz by (simp add: unat_mult_lem[THEN iffD1])
  show ?thesis using 2 by (simp add: SQ4BitGemmPackQuantBDataSize_def)
qed

theorem SQ4BitGemmPackQuantBDataSize_formula_witness:
  "unat (SQ4BitGemmPackQuantBDataSize 5 17 16 CompInt8) = 80 \<and>
   SQ4BitGemmPackQuantBDataSize 5 17 16 CompFp32 = SQ4BitGemmPackQuantBDataSize 5 17 16 CompInt8"
proof -
  have c: "nat \<lceil>real 17 / real 16\<rceil> = 2" by (simp add: ceiling_eq_iff)
  show ?thesis
    using SQ4BitGemmPackQuantBDataSize_formula [of 16 17 5 CompInt8 5 17 16] c by simp
qed

text \<open>
  Claim C4. For a block length of 16, 32, 64 or 128 and either compute type, unpacking
  the packed buffer gives back the source buffer, and the code that a kernel reads at
  position \<open>i\<close> of the packed buffer is the code at position \<open>i\<close> of the source; the
  byte it is read from lies in the block of position \<open>i\<close>. Position
  \<open>n * BlockCountK * BlkLen + k\<close> is row \<open>k\<close> of column \<open>n\<close>.
\<close>

theorem SQ4BitGemmPackQuantBData_invertible:
  assumes B: "BlkLen \<in> {16, 32, 64, 128}"
    and lenX: "length X = N * MlasDivRoundup K BlkLen * MlasQNBitBlkDataSizeInBytes 4 BlkLen"
    and lenP: "length P = length X"
  shows "SQ4BitGemmUnpackQuantBData N K BlkLen ComputeType
           (SQ4BitGemmPackQuantBData N K BlkLen ComputeType X P) = X \<and>
         (\<forall>i < N * MlasDivRoundup K BlkLen * BlkLen.
            PackedQuantBCode (PackSubBlkLen ComputeType BlkLen)
              (SQ4BitGemmPackQuantBData N K BlkLen ComputeType X P) i = QuantBCode X i \<and>
            PackedQuantBByteIndex (PackSubBlkLen ComputeType BlkLen) i
              div MlasQNBitBlkDataSizeInBytes 4 BlkLen = i div BlkLen)"
proof -
  let ?L = "PackSubBlkLen ComputeType BlkLen"
  let ?P' = "SQ4BitGemmPackQuantBData N K BlkLen ComputeType X P"
  let ?NB = "N * MlasDivRoundup K BlkLen"
  have L: "0 < ?L" "4 dvd ?L" "even ?L" by (simp_all add: PackSubBlkLen_def)
  have SD: "0 < ?L div 2" "even (?L div 2)" by (simp_all add: PackSubBlkLen_def)
  obtain m where m: "0 < m" "BlkLen = m * ?L" "MlasQNBitBlkDataSizeInBytes 4 BlkLen = m * (?L div 2)"
    using PackSubBlkLen_shape[OF B] by blast
  have lenP': "length ?P' = length X" using lenP by simp
  have size: "length X = (?NB * m) * (?L div 2)"
    using lenX m(3) by simp
  have nth: "\<And>j. j < length ?P' \<Longrightarrow> ?P' ! j = packed_at (?L div 2) X j"
    using Pack_nth[OF B, where P = P and N = N and K = K and CT = ComputeType and X = X]
      lenX lenP by simp
  have 1: "SQ4BitGemmUnpackQuantBData N K BlkLen ComputeType ?P' = X"
  proof (rule nth_equalityI)
    show "length (SQ4BitGemmUnpackQuantBData N K BlkLen ComputeType ?P') = length X"
      using lenX by (simp add: SQ4BitGemmUnpackQuantBData_def)
  next
    fix j assume "j < length (SQ4BitGemmUnpackQuantBData N K BlkLen ComputeType ?P')"
    then have j: "j < length X" using lenX by (simp add: SQ4BitGemmUnpackQuantBData_def)
    then have "UnpackByte (?L div 2) ?P' j = X ! j"
      using UnpackByte_packed[OF SD _ _ nth, of "?NB * m" j] size lenP' by simp
    then show "SQ4BitGemmUnpackQuantBData N K BlkLen ComputeType ?P' ! j = X ! j"
      using j lenX by (simp add: SQ4BitGemmUnpackQuantBData_def PackSubBlkLen_def)
  qed
  have 2: "PackedQuantBCode ?L ?P' i = QuantBCode X i" if "i < ?NB * BlkLen" for i
  proof -
    have "i < (?NB * m) * ?L" using that m(2) by (metis mult.assoc)
    then show ?thesis
      using PackedQuantBCode_packed[OF L(1,2) _ _ nth, of "?NB * m" i] size lenP' by simp
  qed
  have 3: "PackedQuantBByteIndex ?L i div MlasQNBitBlkDataSizeInBytes 4 BlkLen = i div BlkLen" for i
    using PackedQuantBByteIndex_block[OF L(1) L(3) m(1), of i] m(2,3) by simp
  show ?thesis using 1 2 3 by blast
qed


theorem SQ4BitGemmPackQuantBData_invertible_witness:
  "(32::nat) \<in> {16, 32, 64, 128} \<and>
   length [0x10, 0x32, 0x54, 0x76, 0x98, 0xBA, 0xDC, 0xFE,
           0x01, 0x23, 0x45, 0x67, 0x89, 0xAB, 0xCD, 0xEF :: byte] =
     1 * MlasDivRoundup 32 32 * MlasQNBitBlkDataSizeInBytes 4 32 \<and>
   SQ4BitGemmUnpackQuantBData 1 32 32 CompInt8
     (SQ4BitGemmPackQuantBData 1 32 32 CompInt8
        [0x10, 0x32, 0x54, 0x76, 0x98, 0xBA, 0xDC, 0xFE,
         0x01, 0x23, 0x45, 0x67, 0x89, 0xAB, 0xCD, 0xEF] (replicate 16 0)) =
     [0x10, 0x32, 0x54, 0x76, 0x98, 0xBA, 0xDC, 0xFE,
      0x01, 0x23, 0x45, 0x67, 0x89, 0xAB, 0xCD, 0xEF] \<and>
   PackedQuantBCode (PackSubBlkLen CompInt8 32)
     (SQ4BitGemmPackQuantBData 1 32 32 CompInt8
        [0x10, 0x32, 0x54, 0x76, 0x98, 0xBA, 0xDC, 0xFE,
         0x01, 0x23, 0x45, 0x67, 0x89, 0xAB, 0xCD, 0xEF] (replicate 16 0)) 9 = 9"
proof -
  let ?X = "[0x10, 0x32, 0x54, 0x76, 0x98, 0xBA, 0xDC, 0xFE,
             0x01, 0x23, 0x45, 0x67, 0x89, 0xAB, 0xCD, 0xEF :: byte]"
  have h1: "(32::nat) \<in> {16, 32, 64, 128}" by simp
  have h2: "length ?X = 1 * MlasDivRoundup 32 32 * MlasQNBitBlkDataSizeInBytes 4 32"
    by (simp add: MlasDivRoundup_def MlasQNBitBlkDataSizeInBytes_def)
  have h3: "length (replicate 16 (0::byte)) = length ?X" by simp
  have h4: "(9::nat) < 1 * MlasDivRoundup 32 32 * 32" by (simp add: MlasDivRoundup_def)
  have q: "QuantBCode ?X 9 = 9" by (simp add: QuantBCode_def)
  show ?thesis
    using SQ4BitGemmPackQuantBData_invertible [OF h1 h2 h3] h1 h2 h4 q by auto
qed

section \<open>Loading floats\<close>

lemma LoadFloatData_whole_result:
  "LoadFloatData_whole src p count vi dst = (p', count', vi', dst') \<Longrightarrow>
   p' = p + 4 * (count div 4) \<and> count' = count mod 4 \<and> vi' = vi + count div 4 \<and>
   length dst' = length dst \<and>
   (\<forall>j < length dst. dst' ! j =
      (if vi \<le> j \<and> j < vi + count div 4 then vld1q_f32 src (p + 4 * (j - vi)) else dst ! j))"
proof (induction src p count vi dst rule: LoadFloatData_whole.induct)
  case (1 src p count vi dst)
  show ?case
  proof (cases "count > 3")
    case False
    then have "(p', count', vi', dst') = (p, count, vi, dst)"
      using "1.prems" by (subst (asm) LoadFloatData_whole.simps) simp
    then show ?thesis using False by auto
  next
    case True
    then have step: "LoadFloatData_whole src (p + 4) (count - 4) (vi + 1) (dst[vi := vld1q_f32 src p])
        = (p', count', vi', dst')"
      using "1.prems" by (subst (asm) LoadFloatData_whole.simps) simp
    have d: "count div 4 = Suc ((count - 4) div 4)" "count mod 4 = (count - 4) mod 4"
      using True by (simp_all add: le_div_geq le_mod_geq)
    note IH = "1.IH"[OF True step]
    show ?thesis
    proof (intro conjI allI impI)
      fix j assume j: "j < length dst"
      have "dst' ! j = (if vi + 1 \<le> j \<and> j < vi + 1 + (count - 4) div 4
              then vld1q_f32 src (p + 4 + 4 * (j - (vi + 1))) else dst[vi := vld1q_f32 src p] ! j)"
        using IH j by simp
      also have "\<dots> = (if vi \<le> j \<and> j < vi + count div 4
              then vld1q_f32 src (p + 4 * (j - vi)) else dst ! j)"
      proof (cases "j = vi")
        case True
        then show ?thesis using j d by simp
      next
        case False
        have "vi + 1 \<le> j \<Longrightarrow> p + 4 + 4 * (j - (vi + 1)) = p + 4 * (j - vi)" by simp
        then show ?thesis using False d by (auto simp: add.assoc)
      qed
      finally show "dst' ! j = (if vi \<le> j \<and> j < vi + count div 4
              then vld1q_f32 src (p + 4 * (j - vi)) else dst ! j)" .
    qed (use IH d in simp_all)
  qed
qed

lemma vld1q_f32_nth [simp]: "l < 4 \<Longrightarrow> vld1q_f32 src p ! l = src ! (p + l)"
  by (simp add: vld1q_f32_def)

lemma vld1q_f32_length [simp]: "length (vld1q_f32 src p) = 4"
  by (simp add: vld1q_f32_def)

lemma LoadFloatData_length [simp]: "length (LoadFloatData src p count dst) = length dst"
proof -
  obtain p' c' vi' dst' where w: "LoadFloatData_whole src p count 0 dst = (p', c', vi', dst')"
    by (metis prod_cases4)
  from LoadFloatData_whole_result[OF w] have "length dst' = length dst" by simp
  then show ?thesis by (simp add: LoadFloatData_def w Let_def)
qed

lemma LoadFloatData_nth:
  assumes cap: "count \<le> 4 * length dst" and i: "i < length dst" and l: "l < 4"
    and len: "\<forall>v \<in> set dst. length v = 4"
  shows "LoadFloatData src p count dst ! i ! l =
           (if 4 * i + l < count then src ! (p + 4 * i + l) else dst ! i ! l)"
    and "length (LoadFloatData src p count dst ! i) = 4"
proof -
  obtain p' c' vi' dst' where w: "LoadFloatData_whole src p count 0 dst = (p', c', vi', dst')"
    by (metis prod_cases4)
  note r = LoadFloatData_whole_result[OF w]
  have p': "p' = p + 4 * (count div 4)" and c': "c' = count mod 4" and vi': "vi' = count div 4"
    and ld: "length dst' = length dst" using r by simp_all
  have dst': "dst' ! j = (if j < count div 4 then vld1q_f32 src (p + 4 * j) else dst ! j)"
    if "j < length dst" for j using r that by simp
  have l4: "length (dst ! j) = 4" if "j < length dst" for j using len that by simp
  have vi_lt: "vi' < length dst" if "c' > 0"
  proof -
    have "count mod 4 > 0" using that c' by simp
    then have "4 * (count div 4) < count" by (metis mult.commute add.commute less_add_same_cancel2 mult_div_mod_eq)
    then show ?thesis using cap vi' by simp
  qed
  have cnt: "count = 4 * vi' + c'" using vi' c' by simp
  have c3: "c' < 4" using c' by simp
  define res where "res = LoadFloatData src p count dst"
  have res: "res =
     (if c' > 0 then
          let dst1 = dst'[vi' := vsetq_lane_f32 (src ! p') (dst' ! vi') 0]
          in if c' > 1 then
               let dst2 = dst1[vi' := vsetq_lane_f32 (src ! (p' + 1)) (dst1 ! vi') 1]
               in if c' > 2 then
                    dst2[vi' := vsetq_lane_f32 (src ! (p' + 2)) (dst2 ! vi') 2]
                  else dst2
             else dst1
        else dst')"
    by (simp add: res_def LoadFloatData_def w)
  have main: "res ! i ! l = (if 4 * i + l < count then src ! (p + 4 * i + l) else dst ! i ! l)
      \<and> length (res ! i) = 4"
  proof (cases "i = vi'")
    case False
    have ri: "res ! i = dst' ! i" using False by (simp add: res Let_def)
    show ?thesis
    proof (cases "i < vi'")
      case True
      then have "4 * i + l < count" using cnt l by simp
      then show ?thesis using True ri dst'[OF i] vi' l by (simp add: add.assoc)
    next
      case False
      then have "vi' < i" using \<open>i \<noteq> vi'\<close> by simp
      then have "\<not> 4 * i + l < count" using cnt c3 by simp
      then show ?thesis using False ri dst'[OF i] vi' l4[OF i] by simp
    qed
  next
    case True
    have dv: "dst' ! vi' = dst ! i" using dst'[OF i] True vi' by simp
    have lv: "length (dst ! i) = 4" by (rule l4[OF i])
    have iv: "vi' < length dst'" using i True ld by simp
    have lt: "4 * i + l < count \<longleftrightarrow> l < c'" using cnt True by simp
    have pp: "p + 4 * i = p'" using p' vi' True by simp
    consider "c' = 0" | "c' = 1" | "c' = 2" | "c' = 3" using c3 by linarith
    then show ?thesis
    proof cases
      case 1 then show ?thesis using True dv lv lt by (simp add: res)
    next
      case 2
      then show ?thesis using True dv lv lt iv l pp[symmetric]
        by (auto simp: res vsetq_lane_f32_def Let_def nth_list_update)
    next
      case 3
      then show ?thesis using True dv lv lt iv l pp[symmetric]
        by (auto simp: res vsetq_lane_f32_def Let_def nth_list_update add.assoc less_Suc_eq numeral_2_eq_2)
    next
      case 4
      then show ?thesis using True dv lv lt iv l pp[symmetric]
        by (auto simp: res vsetq_lane_f32_def Let_def nth_list_update add.assoc less_Suc_eq numeral_3_eq_3 numeral_2_eq_2)
    qed
  qed
  show "LoadFloatData src p count dst ! i ! l =
           (if 4 * i + l < count then src ! (p + 4 * i + l) else dst ! i ! l)"
    and "length (LoadFloatData src p count dst ! i) = 4"
    using main by (simp_all add: res_def)
qed

section \<open>The scale of a quantized block of A\<close>

lemma upt_4: "[0..<4] = [0, 1, 2, 3]"
  by (simp add: upt_conv_Cons)

lemma lt4_cases: "(l::nat) < 4 \<Longrightarrow> l = 0 \<or> l = 1 \<or> l = 2 \<or> l = 3"
  by auto

lemma zero_f32x4_simps [simp]:
  "length (zero_f32x4 n) = n" "i < n \<Longrightarrow> zero_f32x4 n ! i = replicate 4 0"
  "v \<in> set (zero_f32x4 n) \<Longrightarrow> length v = 4"
  by (auto simp: zero_f32x4_def)

lemma LoadFloatData_padded:
  assumes "cnt \<le> 16" "i < 4" "l < 4"
  shows "LoadFloatData A p cnt (zero_f32x4 4) ! i ! l = padded A p cnt (4 * i + l)"
  using LoadFloatData_nth(1)[of cnt "zero_f32x4 4" i l A p] assms
  by (auto simp: padded_def add.assoc)

lemma vmaxq_f32_nth [simp]: "l < 4 \<Longrightarrow> vmaxq_f32 a b ! l = max (a ! l) (b ! l)"
  by (simp add: vmaxq_f32_def)

lemma vabsq_f32_nth [simp]: "l < 4 \<Longrightarrow> vabsq_f32 a ! l = \<bar>a ! l\<bar>"
  by (simp add: vabsq_f32_def)

lemma amax_reduce_4:
  "amax_reduce 2 [a, b, c, d] = [vmaxq_f32 (vmaxq_f32 a c) (vmaxq_f32 b d), vmaxq_f32 b d, c, d]"
proof -
  have u: "[0..<2] = [0, 1]" "[0..<Suc 0] = [0]" "[0..<1] = [0]"
    by (simp_all add: upt_conv_Cons)
  show ?thesis
    by (subst amax_reduce.simps, simp add: u, subst amax_reduce.simps, simp add: u,
        subst amax_reduce.simps, simp)
qed

lemma vmaxvq_f32_ge: "l < 4 \<Longrightarrow> v ! l \<le> vmaxvq_f32 v"
  by (drule lt4_cases) (auto simp: vmaxvq_f32_def le_max_iff_disj)

lemma vmaxvq_f32_in: "\<exists>l<4. vmaxvq_f32 v = v ! l"
proof -
  have "vmaxvq_f32 v \<in> {v ! 0, v ! 1, v ! 2, v ! 3}"
    unfolding vmaxvq_f32_def by (auto simp: max_def)
  then consider "vmaxvq_f32 v = v ! 0" | "vmaxvq_f32 v = v ! 1" | "vmaxvq_f32 v = v ! 2"
    | "vmaxvq_f32 v = v ! 3" by auto
  then show ?thesis
  proof cases
    case 1 then show ?thesis by (intro exI[of _ 0]) simp
  next
    case 2 then show ?thesis by (intro exI[of _ 1]) simp
  next
    case 3 then show ?thesis by (intro exI[of _ 2]) simp
  next
    case 4 then show ?thesis by (intro exI[of _ 3]) simp
  qed
qed

text \<open>The maximum that one pass of the first loop computes for the sub-block at \<open>p\<close>.\<close>

lemma subblk_amax_lanes:
  assumes "l < 4"
  shows "amax_reduce 2 (map (\<lambda>i. vabsq_f32 (av ! i)) [0..<4]) ! 0 ! l =
     max (max \<bar>av ! 0 ! l\<bar> \<bar>av ! 2 ! l\<bar>) (max \<bar>av ! 1 ! l\<bar> \<bar>av ! 3 ! l\<bar>)"
  unfolding upt_4 using assms by (simp add: amax_reduce_4)

lemma subblk_amax_ge:
  assumes "i < 4" "l < 4"
  shows "\<bar>av ! i ! l\<bar> \<le> vmaxvq_f32 (amax_reduce 2 (map (\<lambda>i. vabsq_f32 (av ! i)) [0..<4]) ! 0)"
proof -
  let ?R = "amax_reduce 2 (map (\<lambda>i. vabsq_f32 (av ! i)) [0..<4]) ! 0"
  have "\<bar>av ! i ! l\<bar> \<le> ?R ! l"
    unfolding subblk_amax_lanes[OF assms(2)]
    using lt4_cases[OF assms(1)] by (auto simp: le_max_iff_disj)
  also have "\<dots> \<le> vmaxvq_f32 ?R" by (rule vmaxvq_f32_ge[OF assms(2)])
  finally show ?thesis .
qed

lemma subblk_amax_in:
  "\<exists>i<4. \<exists>l<4. vmaxvq_f32 (amax_reduce 2 (map (\<lambda>i. vabsq_f32 (av ! i)) [0..<4]) ! 0)
      = \<bar>av ! i ! l\<bar>"
proof -
  let ?R = "amax_reduce 2 (map (\<lambda>i. vabsq_f32 (av ! i)) [0..<4]) ! 0"
  obtain l where l: "l < 4" "vmaxvq_f32 ?R = ?R ! l" using vmaxvq_f32_in by blast
  have "?R ! l \<in> {\<bar>av ! 0 ! l\<bar>, \<bar>av ! 1 ! l\<bar>, \<bar>av ! 2 ! l\<bar>, \<bar>av ! 3 ! l\<bar>}"
    unfolding subblk_amax_lanes[OF l(1)] by (auto simp: max_def)
  then consider "?R ! l = \<bar>av ! 0 ! l\<bar>" | "?R ! l = \<bar>av ! 1 ! l\<bar>" | "?R ! l = \<bar>av ! 2 ! l\<bar>"
    | "?R ! l = \<bar>av ! 3 ! l\<bar>" by auto
  then show ?thesis
  proof cases
    case 1 then show ?thesis using l by - (rule exI[of _ 0], simp, rule exI[of _ l], simp)
  next
    case 2 then show ?thesis using l by - (rule exI[of _ 1], simp, rule exI[of _ l], simp)
  next
    case 3 then show ?thesis using l by - (rule exI[of _ 2], simp, rule exI[of _ l], simp)
  next
    case 4 then show ?thesis using l by - (rule exI[of _ 3], simp, rule exI[of _ l], simp)
  qed
qed

lemma padded_shift:
  assumes "s < 16"
  shows "padded A (a + k) (min (n - k) 16) s = padded A a n (k + s)"
  using assms by (auto simp: padded_def add.assoc)

lemma QuantizeBlock_amax_props:
  assumes "0 \<le> amax0"
  shows "amax0 \<le> QuantizeBlock_amax 16 A a n k amax0 \<and>
         (\<forall>t. k \<le> t \<and> t < n \<longrightarrow> \<bar>A ! (a + t)\<bar> \<le> QuantizeBlock_amax 16 A a n k amax0) \<and>
         (QuantizeBlock_amax 16 A a n k amax0 = amax0 \<or>
          (\<exists>t. k \<le> t \<and> t < n \<and> QuantizeBlock_amax 16 A a n k amax0 = \<bar>A ! (a + t)\<bar>))"
  using assms
proof (induction "16::nat" A a n k amax0 rule: QuantizeBlock_amax.induct)
  case (1 A a n k amax0)
  show ?case
  proof (cases "k < n")
    case False
    then show ?thesis by (subst (1 2 3 4) QuantizeBlock_amax.simps) simp
  next
    case True
    define cnt where "cnt = min (n - k) 16"
    define av where "av = LoadFloatData A (a + k) cnt (zero_f32x4 4)"
    define m where "m = vmaxvq_f32 (amax_reduce 2 (map (\<lambda>i. vabsq_f32 (av ! i)) [0..<4]) ! 0)"
    define r where "r = QuantizeBlock_amax 16 A a n (k + 16) (max amax0 m)"
    have cnt: "cnt \<le> 16" by (simp add: cnt_def)
    have step: "QuantizeBlock_amax 16 A a n k amax0 = r"
      using True by (subst QuantizeBlock_amax.simps) (simp add: Let_def r_def m_def av_def cnt_def)
    have lane: "av ! i ! l = padded A a n (k + (4 * i + l))" if "i < 4" "l < 4" for i l
      unfolding av_def cnt_def LoadFloatData_padded[OF cnt[unfolded cnt_def] that]
      using that by (intro padded_shift) simp
    have m_ge: "\<bar>padded A a n (k + s)\<bar> \<le> m" if "s < 16" for s
    proof -
      have "\<bar>av ! (s div 4) ! (s mod 4)\<bar> \<le> m"
        unfolding m_def using that by (intro subblk_amax_ge) simp_all
      then show ?thesis using that lane[of "s div 4" "s mod 4"] by simp
    qed
    obtain s where s: "s < 16" "m = \<bar>padded A a n (k + s)\<bar>"
    proof -
      obtain i l where "i < 4" "l < 4" "m = \<bar>av ! i ! l\<bar>"
        unfolding m_def using subblk_amax_in by blast
      then show ?thesis using that[of "4 * i + l"] lane[of i l] by simp
    qed
    have m0: "0 \<le> m" using s by simp
    have "0 \<le> max amax0 m" using "1.prems" by simp
    have t: "k < n \<and> 0 < (16::nat)" using True by simp
    have m_alt: "vmaxvq_f32 (amax_reduce (16 div 4 div 2)
        (map (\<lambda>i. vabsq_f32 (LoadFloatData A (a + k) (min (n - k) 16) (zero_f32x4 (16 div 4)) ! i))
          [0..<16 div 4]) ! 0) = m"
      by (simp add: m_def av_def cnt_def)
    note IH = "1.hyps"[OF t refl refl refl refl, unfolded m_alt, OF \<open>0 \<le> max amax0 m\<close>,
        folded r_def]
    have IH': "max amax0 m \<le> r" "\<And>t. k + 16 \<le> t \<Longrightarrow> t < n \<Longrightarrow> \<bar>A ! (a + t)\<bar> \<le> r"
      "r = max amax0 m \<or> (\<exists>t. k + 16 \<le> t \<and> t < n \<and> r = \<bar>A ! (a + t)\<bar>)"
      using IH by auto
    have 1: "amax0 \<le> r" using IH'(1) by simp
    have 2: "\<bar>A ! (a + t)\<bar> \<le> r" if "k \<le> t" "t < n" for t
    proof (cases "k + 16 \<le> t")
      case True
      then show ?thesis using IH'(2) that by simp
    next
      case False
      then have "t - k < 16" by simp
      from m_ge[OF this] have "\<bar>padded A a n t\<bar> \<le> m" using that by simp
      then show ?thesis using that IH'(1) by (simp add: padded_def)
    qed
    have 3: "r = amax0 \<or> (\<exists>t. k \<le> t \<and> t < n \<and> r = \<bar>A ! (a + t)\<bar>)"
      using IH'(3)
    proof
      assume "\<exists>t. k + 16 \<le> t \<and> t < n \<and> r = \<bar>A ! (a + t)\<bar>"
      then obtain t where "k + 16 \<le> t" "t < n" "r = \<bar>A ! (a + t)\<bar>" by blast
      then have "k \<le> t \<and> t < n \<and> r = \<bar>A ! (a + t)\<bar>" by simp
      then show ?thesis by blast
    next
      assume rm: "r = max amax0 m"
      show ?thesis
      proof (cases "m \<le> amax0")
        case True
        then show ?thesis using rm by simp
      next
        case False
        then have rm': "r = m" "0 < m" using rm "1.prems" by (simp_all add: max_def)
        then have ks: "k + s < n" using s(2) by (auto simp: padded_def split: if_splits)
        then have "k \<le> k + s \<and> k + s < n \<and> r = \<bar>A ! (a + (k + s))\<bar>"
          using rm' s by (simp add: padded_def)
        then show ?thesis by blast
      qed
    qed
    show ?thesis unfolding step using 1 2 3 by blast
  qed
qed

lemma QuantizeBlock_amax_eq: "QuantizeBlock_amax 16 A a n 0 0 = amax_of A a n"
proof -
  let ?r = "QuantizeBlock_amax 16 A a n 0 0"
  note p = QuantizeBlock_amax_props[of 0 A a n 0, simplified]
  have "Max (insert 0 ((\<lambda>t. \<bar>A ! (a + t)\<bar>) ` {..<n})) = ?r"
  proof (rule Max_eqI)
    show "finite (insert 0 ((\<lambda>t. \<bar>A ! (a + t)\<bar>) ` {..<n}))" by simp
    show "\<And>y. y \<in> insert 0 ((\<lambda>t. \<bar>A ! (a + t)\<bar>) ` {..<n}) \<Longrightarrow> y \<le> ?r" using p by auto
    show "?r \<in> insert 0 ((\<lambda>t. \<bar>A ! (a + t)\<bar>) ` {..<n})" using p by auto
  qed
  then show ?thesis by (simp add: amax_of_def)
qed

section \<open>The codes of a quantized block of A\<close>

lemma fold_store4_length:
  "length (fold (\<lambda>i Q. Q[k + i * 4 + 0 := f i 0, k + i * 4 + 1 := f i 1,
                        k + i * 4 + 2 := f i 2, k + i * 4 + 3 := f i 3]) [0..<n] Q) = length Q"
proof -
  have "length (fold (\<lambda>i Q. Q[a0 i := x0 i, a1 i := x1 i, a2 i := x2 i, a3 i := x3 i]) [0..<n] Q)
      = length Q" for a0 a1 a2 a3 :: "nat \<Rightarrow> nat" and x0 x1 x2 x3 :: "nat \<Rightarrow> 'a"
    by (induction n) simp_all
  then show ?thesis .
qed

lemma store4_nth:
  assumes "j < length Q"
  shows "Q[k + 0 := a, k + 1 := b, k + 2 := c, k + 3 := d] ! j =
     (if k \<le> j \<and> j < k + 4 then [a, b, c, d] ! (j - k) else Q ! j)"
proof -
  have "j < k \<or> j = k \<or> j = k + 1 \<or> j = k + 2 \<or> j = k + 3 \<or> k + 4 \<le> j" by arith
  then show ?thesis using assms by (elim disjE) simp_all
qed

lemma fold_store4_nth:
  assumes "j < length Q"
  shows "fold (\<lambda>i Q. Q[k + i * 4 + 0 := f i 0, k + i * 4 + 1 := f i 1,
                      k + i * 4 + 2 := f i 2, k + i * 4 + 3 := f i 3]) [0..<n] Q ! j =
         (if k \<le> j \<and> j < k + 4 * n then [f ((j - k) div 4) 0, f ((j - k) div 4) 1,
              f ((j - k) div 4) 2, f ((j - k) div 4) 3] ! ((j - k) mod 4) else Q ! j)"
proof (induction n)
  case 0
  show ?case by auto
next
  case (Suc n)
  let ?Q = "fold (\<lambda>i Q. Q[k + i * 4 + 0 := f i 0, k + i * 4 + 1 := f i 1,
                      k + i * 4 + 2 := f i 2, k + i * 4 + 3 := f i 3]) [0..<n] Q"
  have len: "j < length ?Q" using assms by (simp only: fold_store4_length)
  have "fold (\<lambda>i Q. Q[k + i * 4 + 0 := f i 0, k + i * 4 + 1 := f i 1,
                      k + i * 4 + 2 := f i 2, k + i * 4 + 3 := f i 3]) [0..<Suc n] Q ! j
      = ?Q[(k + n * 4) + 0 := f n 0, (k + n * 4) + 1 := f n 1, (k + n * 4) + 2 := f n 2,
           (k + n * 4) + 3 := f n 3] ! j"
    by (simp only: upt_Suc_append[OF le0] fold_append fold.simps o_apply id_apply)
  also have "\<dots> = (if k + n * 4 \<le> j \<and> j < k + n * 4 + 4
       then [f n 0, f n 1, f n 2, f n 3] ! (j - (k + n * 4)) else ?Q ! j)"
    by (rule store4_nth[OF len])
  also have "\<dots> = (if k \<le> j \<and> j < k + 4 * Suc n then [f ((j - k) div 4) 0, f ((j - k) div 4) 1,
              f ((j - k) div 4) 2, f ((j - k) div 4) 3] ! ((j - k) mod 4) else Q ! j)"
  proof (cases "k + n * 4 \<le> j \<and> j < k + n * 4 + 4")
    case True
    then obtain d where d: "j = k + n * 4 + d" "d < 4" by (auto simp: le_iff_add)
    have "j - k = n * 4 + d" using d by simp
    then have "(j - k) div 4 = n" "(j - k) mod 4 = d" "j - (k + n * 4) = d" using d by simp_all
    then show ?thesis using True by simp
  next
    case False
    then show ?thesis unfolding Suc by auto
  qed
  finally show ?case .
qed

lemma fold_store_length [simp]:
  "length (fold (\<lambda>l d. d[p + l := g l]) [0..<n] d) = length d"
  by (induction n) simp_all

lemma fold_store_nth:
  assumes "j < length d"
  shows "fold (\<lambda>l d. d[p + l := g l]) [0..<n] d ! j =
         (if p \<le> j \<and> j < p + n then g (j - p) else d ! j)"
proof (induction n)
  case 0
  show ?case by auto
next
  case (Suc n)
  have len: "j < length (fold (\<lambda>l d. d[p + l := g l]) [0..<n] d)" using assms by simp
  show ?case
  proof (cases "j = p + n")
    case True
    then show ?thesis using len by simp
  next
    case False
    then show ?thesis using Suc len by auto
  qed
qed

lemma vst1q_s8_length [simp]: "length (vst1q_s8 dst p v) = length dst"
  by (simp add: vst1q_s8_def)

lemma vst1q_s8_nth:
  "j < length dst \<Longrightarrow>
   vst1q_s8 dst p v ! j = (if p \<le> j \<and> j < p + 16 then v ! (j - p) else dst ! j)"
  by (simp add: vst1q_s8_def fold_store_nth)


lemma nth4: "m < 4 \<Longrightarrow> [g 0, g 1, g 2, g 3] ! m = g (m::nat)"
  by (drule lt4_cases) auto

lemma vcvtas_s32_f32_0 [simp]: "vcvtas_s32_f32 0 = 0"
  by (simp add: vcvtas_s32_f32_def round_ties_away_def)

lemma Q8Code_0 [simp]: "Q8Code 0 = 0"
  by (simp add: Q8Code_def)

lemma QuantizeBlock_subblk_length [simp]:
  "length (QuantizeBlock_subblk 16 A a n r k Q) = length Q"
  unfolding QuantizeBlock_subblk_def Let_def by (rule fold_store4_length)

lemma QuantizeBlock_subblk_nth:
  assumes j: "j < length Q"
  shows "QuantizeBlock_subblk 16 A a n r k Q ! j =
           (if k \<le> j \<and> j < k + 16 then Q8Code (padded A a n j * r) else Q ! j)"
proof -
  define cnt where "cnt = min (n - k) 16"
  define av where "av = LoadFloatData A (a + k) cnt (zero_f32x4 (16 div 4))"
  define g where "g = (\<lambda>i l. (ucast (vgetq_lane_s32
      (map (\<lambda>i. vcvtaq_s32_f32 (map (\<lambda>i. vmulq_n_f32 (av ! i) r) [0..<16 div 4] ! i))
         [0..<16 div 4] ! i) l) :: 8 word))"
  have cnt: "cnt \<le> 16" by (simp add: cnt_def)
  have lane: "av ! i ! l = padded A a n (k + (4 * i + l))" if "i < 4" "l < 4" for i l
  proof -
    have "av ! i ! l = padded A (a + k) (min (n - k) 16) (4 * i + l)"
      unfolding av_def cnt_def using LoadFloatData_padded[OF cnt[unfolded cnt_def] that] by simp
    also have "\<dots> = padded A a n (k + (4 * i + l))"
      using that by (intro padded_shift) simp
    finally show ?thesis .
  qed
  have g: "g i l = Q8Code (padded A a n (k + (4 * i + l)) * r)" if "i < 4" "l < 4" for i l
    using that lane[OF that]
    by (simp add: g_def Q8Code_def vgetq_lane_s32_def vcvtaq_s32_f32_def vmulq_n_f32_def)
  have eq: "QuantizeBlock_subblk 16 A a n r k Q =
      fold (\<lambda>i Q. Q[k + i * 4 + 0 := g i 0, k + i * 4 + 1 := g i 1,
                    k + i * 4 + 2 := g i 2, k + i * 4 + 3 := g i 3]) [0..<16 div 4] Q"
    unfolding QuantizeBlock_subblk_def Let_def g_def av_def cnt_def ..
  show ?thesis
  proof (cases "k \<le> j \<and> j < k + 16")
    case False
    then show ?thesis unfolding eq fold_store4_nth[OF j] by auto
  next
    case True
    then have m: "(j - k) div 4 < 4" "(j - k) mod 4 < 4" by auto
    have "QuantizeBlock_subblk 16 A a n r k Q ! j = g ((j - k) div 4) ((j - k) mod 4)"
      unfolding eq fold_store4_nth[OF j] nth4[OF m(2)] using True by simp
    also have "\<dots> = Q8Code (padded A a n (k + (4 * ((j - k) div 4) + (j - k) mod 4)) * r)"
      by (rule g[OF m])
    also have "k + (4 * ((j - k) div 4) + (j - k) mod 4) = j" using True by simp
    finally show ?thesis using True by simp
  qed
qed

lemma QuantizeBlock_codes_result:
  assumes "QuantizeBlock_codes 16 A a n r k Q = (k', Q')"
  shows "k' = (if k < n then k + 16 * ((n - k + 15) div 16) else k) \<and>
         length Q' = length Q \<and>
         (\<forall>j < length Q. Q' ! j =
            (if k \<le> j \<and> j < k' then Q8Code (padded A a n j * r) else Q ! j))"
  using assms
proof (induction "16::nat" A a n r k Q rule: QuantizeBlock_codes.induct)
  case (1 A a n r k Q)
  show ?case
  proof (cases "k < n")
    case False
    then have "(k', Q') = (k, Q)"
      using "1.prems" by (subst (asm) QuantizeBlock_codes.simps) simp
    then show ?thesis using False by auto
  next
    case True
    define Q1 where "Q1 = QuantizeBlock_subblk 16 A a n r k Q"
    have t: "k < n \<and> 0 < (16::nat)" using True by simp
    have step: "QuantizeBlock_codes 16 A a n r (k + 16) Q1 = (k', Q')"
      using "1.prems" True
      by (subst (asm) QuantizeBlock_codes.simps) (simp add: Q1_def)
    have lQ1: "length Q1 = length Q" by (simp add: Q1_def)
    note Q1 = QuantizeBlock_subblk_nth[of _ Q A a n r k, folded Q1_def]
    have IH: "k' = (if k + 16 < n then k + 16 + 16 * ((n - (k + 16) + 15) div 16) else k + 16) \<and>
         length Q' = length Q1 \<and>
         (\<forall>j < length Q1. Q' ! j =
            (if k + 16 \<le> j \<and> j < k' then Q8Code (padded A a n j * r) else Q1 ! j))"
      using "1.hyps"[OF t, folded Q1_def, OF step] .
    have k': "k' = k + 16 * ((n - k + 15) div 16)"
    proof (cases "k + 16 < n")
      case True
      then have "(n - k + 15) div 16 = Suc ((n - (k + 16) + 15) div 16)"
        by (simp add: le_div_geq)
      then show ?thesis using IH True by simp
    next
      case False
      then have "(n - k + 15) div 16 = 1" using \<open>k < n\<close>
        by (intro div_nat_eqI) simp_all
      then show ?thesis using IH False by simp
    qed
    have ge: "k + 16 \<le> k'" using k' \<open>k < n\<close>
      by (cases "(n - k + 15) div 16") (simp_all add: div_eq_0_iff)
    show ?thesis
    proof (intro conjI allI impI)
      show "k' = (if k < n then k + 16 * ((n - k + 15) div 16) else k)" using k' True by simp
      show "length Q' = length Q" using IH lQ1 by simp
      fix j assume j: "j < length Q"
      then have "Q' ! j = (if k + 16 \<le> j \<and> j < k' then Q8Code (padded A a n j * r) else Q1 ! j)"
        using IH lQ1 by simp
      then show "Q' ! j = (if k \<le> j \<and> j < k' then Q8Code (padded A a n j * r) else Q ! j)"
        unfolding Q1[OF j] using ge by auto
    qed
  qed
qed

lemma QuantizeBlock_zero_subblk_length [simp]:
  "length (QuantizeBlock_zero_subblk 16 k Q) = length Q"
  by (simp add: QuantizeBlock_zero_subblk_def)

lemma QuantizeBlock_zero_subblk_nth:
  "j < length Q \<Longrightarrow>
   QuantizeBlock_zero_subblk 16 k Q ! j = (if k \<le> j \<and> j < k + 16 then 0 else Q ! j)"
  by (auto simp: QuantizeBlock_zero_subblk_def vst1q_s8_nth vdupq_n_s8_def)

lemma QuantizeBlock_zeros_length [simp]:
  "length (QuantizeBlock_zeros 16 BlkLen k Q) = length Q"
  by (induction "16::nat" BlkLen k Q rule: QuantizeBlock_zeros.induct)
     (subst QuantizeBlock_zeros.simps, simp)

lemma QuantizeBlock_zeros_nth:
  assumes "j < length Q" "j < BlkLen"
  shows "QuantizeBlock_zeros 16 BlkLen k Q ! j = (if k \<le> j then 0 else Q ! j)"
  using assms
proof (induction "16::nat" BlkLen k Q rule: QuantizeBlock_zeros.induct)
  case (1 BlkLen k Q)
  show ?case
  proof (cases "k < BlkLen")
    case False
    then show ?thesis using "1.prems" by (subst QuantizeBlock_zeros.simps) simp
  next
    case True
    then have t: "k < BlkLen \<and> 0 < (16::nat)" by simp
    have "QuantizeBlock_zeros 16 BlkLen k Q ! j =
        QuantizeBlock_zeros 16 BlkLen (k + 16) (QuantizeBlock_zero_subblk 16 k Q) ! j"
      using True by (subst QuantizeBlock_zeros.simps) simp
    also have "\<dots> = (if k + 16 \<le> j then 0 else QuantizeBlock_zero_subblk 16 k Q ! j)"
      using "1.hyps"[OF t] "1.prems" by simp
    also have "\<dots> = (if k \<le> j then 0 else Q ! j)"
      using "1.prems" by (simp add: QuantizeBlock_zero_subblk_nth)
    finally show ?thesis .
  qed
qed

lemma Q8Blk_update_all:
  "(b::Q8Blk)\<lparr>Q8BlkScale := s, Q8BlkData := d\<rparr> = \<lparr>Q8BlkScale = s, Q8BlkData = d\<rparr>"
  by (cases b) simp

lemma QuantizeBlock_result:
  assumes B: "16 dvd BlkLen" and n: "n \<le> BlkLen" and q: "q < length W"
    and len: "length (Q8BlkData (W ! q)) = BlkLen"
  shows "QuantizeBlock 16 BlkLen A a n W q = Inr (W[q := Q8Quantized BlkLen A a n])"
proof -
  define s where "s = Q8Scale A a n"
  define r where "r = Q8ScaleReciprocal A a n"
  define Q where "Q = Q8BlkData (W ! q)"
  obtain k' Q' where c: "QuantizeBlock_codes 16 A a n r 0 Q = (k', Q')" by (cases "QuantizeBlock_codes 16 A a n r 0 Q")
  define Q'' where "Q'' = QuantizeBlock_zeros 16 BlkLen k' Q'"
  note cr = QuantizeBlock_codes_result[OF c]
  have k': "k' = (if 0 < n then 16 * ((n + 15) div 16) else 0)" using cr by simp
  have lQ': "length Q' = BlkLen" using cr len by (simp add: Q_def)
  have Q': "Q' ! j = (if j < k' then Q8Code (padded A a n j * r) else Q ! j)" if "j < BlkLen" for j
    using cr that len by (simp add: Q_def)
  have nk: "n \<le> k'" unfolding k' by (cases "0 < n") auto
  have Q'': "Q'' = map (\<lambda>j. Q8Code (padded A a n j * r)) [0..<BlkLen]"
  proof (rule nth_equalityI)
    show "length Q'' = length (map (\<lambda>j. Q8Code (padded A a n j * r)) [0..<BlkLen])"
      by (simp add: Q''_def lQ')
  next
    fix j assume "j < length Q''"
    then have j: "j < BlkLen" by (simp add: Q''_def lQ')
    have "Q'' ! j = (if k' \<le> j then 0 else Q' ! j)"
      unfolding Q''_def using j lQ' by (intro QuantizeBlock_zeros_nth) simp_all
    also have "\<dots> = Q8Code (padded A a n j * r)"
      using Q'[OF j] nk by (auto simp: padded_def)
    finally show "Q'' ! j = map (\<lambda>j. Q8Code (padded A a n j * r)) [0..<BlkLen] ! j"
      using j by simp
  qed
  have f1: "fdiv (QuantizeBlock_amax 16 A a n 0 0) (2 ^ 7 - 1) = Inr s"
    by (simp add: fdiv_def QuantizeBlock_amax_eq s_def Q8Scale_def)
  have f2: "(if s \<noteq> 0 then fdiv 1 s else Inr 0) = Inr r"
    by (simp add: fdiv_def r_def s_def Q8ScaleReciprocal_def)
  have "QuantizeBlock 16 BlkLen A a n W q =
      Inr (W[q := (W ! q)\<lparr>Q8BlkScale := s\<rparr>, q := (W[q := (W ! q)\<lparr>Q8BlkScale := s\<rparr>] ! q)\<lparr>Q8BlkData := Q''\<rparr>])"
    unfolding QuantizeBlock_def Let_def f1 sum.case f2
    using q c by (simp add: Q_def[symmetric] Q''_def)
  also have "\<dots> = Inr (W[q := Q8Quantized BlkLen A a n])"
    using q by (simp add: Q8Quantized_def Q'' s_def r_def Q8Blk_update_all)
  finally show ?thesis .
qed




lemma MlasDivRoundup_step:
  assumes "0 < x" "0 < B"
  shows "MlasDivRoundup x B = Suc (MlasDivRoundup (x - B) B)"
proof -
  have "(x + B - 1) div B = Suc ((x + B - 1 - B) div B)"
    using assms by (simp add: le_div_geq)
  moreover have "(x + B - 1 - B) div B = (x - B + B - 1) div B"
  proof (cases "B \<le> x")
    case True then show ?thesis by simp
  next
    case False
    then have "x - 1 < B" "B - 1 < B" using assms by simp_all
    then show ?thesis using False by simp
  qed
  ultimately show ?thesis by (simp add: MlasDivRoundup_def)
qed

lemma Q8Quantized_length [simp]: "length (Q8BlkData (Q8Quantized BlkLen A a n)) = BlkLen"
  by (simp add: Q8Quantized_def)

lemma QuantizeARow_blocks_result:
  assumes "0 < BlkLen" "16 dvd BlkLen"
    and "q + MlasDivRoundup (CountK - k) BlkLen \<le> length W"
    and "\<forall>i < length W. length (Q8BlkData (W ! i)) = BlkLen"
  shows "\<exists>W'. QuantizeARow_blocks BlkLen A CountK k p W q = Inr W' \<and> length W' = length W \<and>
     (\<forall>i < length W. W' ! i =
        (if q \<le> i \<and> i < q + MlasDivRoundup (CountK - k) BlkLen
         then Q8Quantized BlkLen A (p + (i - q) * BlkLen) (min (CountK - (k + (i - q) * BlkLen)) BlkLen)
         else W ! i))"
  using assms
proof (induction BlkLen A CountK k p W q rule: QuantizeARow_blocks.induct)
  case (1 BlkLen A CountK k p W q)
  show ?case
  proof (cases "k < CountK")
    case False
    then have "MlasDivRoundup (CountK - k) BlkLen = 0"
      using "1.prems"(1) by (simp add: MlasDivRoundup_def)
    then show ?thesis using False by (subst QuantizeARow_blocks.simps) auto
  next
    case True
    define n where "n = min (CountK - k) BlkLen"
    define W1 where "W1 = W[q := Q8Quantized BlkLen A p n]"
    define m where "m = MlasDivRoundup (CountK - (k + BlkLen)) BlkLen"
    have t: "k < CountK \<and> 0 < BlkLen" using True "1.prems"(1) by simp
    have mdr: "MlasDivRoundup (CountK - k) BlkLen = Suc m"
      using MlasDivRoundup_step[of "CountK - k" BlkLen] True "1.prems"(1) by (simp add: m_def)
    have q: "q < length W" using "1.prems"(3) mdr by simp
    have qb: "QuantizeBlock 16 BlkLen A p n W q = Inr W1"
      unfolding W1_def using "1.prems" q by (intro QuantizeBlock_result) (simp_all add: n_def)
    have step: "QuantizeARow_blocks BlkLen A CountK k p W q =
        QuantizeARow_blocks BlkLen A CountK (k + BlkLen) (p + BlkLen) W1 (q + 1)"
      using t qb by (subst QuantizeARow_blocks.simps) (simp add: n_def[symmetric])
    have lW1: "length W1 = length W" by (simp add: W1_def)
    have pre3: "q + 1 + MlasDivRoundup (CountK - (k + BlkLen)) BlkLen \<le> length W1"
      using "1.prems"(3) mdr lW1 by (simp add: m_def)
    have pre4: "\<forall>i < length W1. length (Q8BlkData (W1 ! i)) = BlkLen"
      using "1.prems"(4) q by (auto simp: W1_def nth_list_update)
    obtain W' where W': "QuantizeARow_blocks BlkLen A CountK (k + BlkLen) (p + BlkLen) W1 (q + 1) = Inr W'"
      "length W' = length W1"
      "\<And>i. i < length W1 \<Longrightarrow> W' ! i =
        (if q + 1 \<le> i \<and> i < q + 1 + m
         then Q8Quantized BlkLen A (p + BlkLen + (i - (q + 1)) * BlkLen)
                (min (CountK - (k + BlkLen + (i - (q + 1)) * BlkLen)) BlkLen)
         else W1 ! i)"
      using "1.IH"[OF t refl qb[unfolded n_def] "1.prems"(1,2) pre3 pre4] unfolding m_def by blast
    have "W' ! i =
        (if q \<le> i \<and> i < q + Suc m
         then Q8Quantized BlkLen A (p + (i - q) * BlkLen) (min (CountK - (k + (i - q) * BlkLen)) BlkLen)
         else W ! i)" if i: "i < length W" for i
    proof (cases "q + 1 \<le> i")
      case True
      then obtain d where d: "i = q + 1 + d" by (auto simp: le_iff_add)
      have e: "i - (q + 1) = d" "i - q = Suc d" "i \<noteq> q" "q \<le> i" using d by simp_all
      have o: "p + BlkLen + d * BlkLen = p + Suc d * BlkLen"
        "k + BlkLen + d * BlkLen = k + Suc d * BlkLen" by simp_all
      have W1i: "W1 ! i = W ! i" using e by (simp add: W1_def)
      have c: "(q + 1 \<le> i \<and> i < q + 1 + m) = (q \<le> i \<and> i < q + Suc m)" using e by simp
      show ?thesis using W'(3)[of i] i lW1 unfolding e o W1i c by simp
    next
      case False
      then have c: "\<not> (q + 1 \<le> i \<and> i < q + 1 + m)" by simp
      have W'i: "W' ! i = W1 ! i" using W'(3)[of i] i lW1 unfolding if_not_P[OF c] by simp
      show ?thesis
      proof (cases "i = q")
        case True
        then show ?thesis unfolding W'i using q by (simp add: W1_def n_def)
      next
        case False
        then have "i < q" using \<open>\<not> q + 1 \<le> i\<close> by simp
        then show ?thesis unfolding W'i using False by (simp add: W1_def)
      qed
    qed
    then show ?thesis unfolding step mdr using W'(1,2) lW1 by simp
  qed
qed







text \<open>
  Claim C7. For a row length that is not a multiple of the block length,
  \<open>QuantizeARow_CompInt8\<close> leaves the code 0 at every position of the last block beyond
  the row; the block holds \<open>BlkLen\<close> codes, and a dot product over all of them is the dot
  product over the positions of the row.
\<close>

theorem QuantizeARow_CompInt8_padding:
  assumes "0 < BlkLen" and "16 dvd BlkLen" and "\<not> BlkLen dvd CountK"
    and "MlasDivRoundup CountK BlkLen \<le> length QuantA"
    and "\<forall>b < length QuantA. length (Q8BlkData (QuantA ! b)) = BlkLen"
  shows "\<exists>QuantA'. QuantizeARow_CompInt8 BlkLen A CountK QuantA = Inr QuantA' \<and>
     length (Q8BlkData (QuantA' ! (CountK div BlkLen))) = BlkLen \<and>
     (\<forall>i. CountK mod BlkLen \<le> i \<and> i < BlkLen \<longrightarrow>
        Q8BlkData (QuantA' ! (CountK div BlkLen)) ! i = 0) \<and>
     (\<forall>y :: nat \<Rightarrow> int.
        (\<Sum>i < BlkLen. sint (Q8BlkData (QuantA' ! (CountK div BlkLen)) ! i) * y i) =
        (\<Sum>i < CountK mod BlkLen. sint (Q8BlkData (QuantA' ! (CountK div BlkLen)) ! i) * y i))"
proof -
  let ?b = "CountK div BlkLen"
  let ?n = "CountK mod BlkLen"
  obtain W' where W': "QuantizeARow_CompInt8 BlkLen A CountK QuantA = Inr W'"
    "length W' = length QuantA"
    "\<And>i. i < length QuantA \<Longrightarrow> W' ! i =
        (if i < MlasDivRoundup CountK BlkLen
         then Q8Quantized BlkLen A (i * BlkLen) (min (CountK - i * BlkLen) BlkLen)
         else QuantA ! i)"
    using QuantizeARow_blocks_result[of BlkLen 0 CountK 0 QuantA A 0] assms
    unfolding QuantizeARow_CompInt8_def by auto
  have m: "?n \<noteq> 0" using assms(3) by (simp add: dvd_eq_mod_eq_0)
  then have mdr: "MlasDivRoundup CountK BlkLen = ?b + 1"
    using assms(1) by (simp add: MlasDivRoundup_cases)
  have n: "min (CountK - ?b * BlkLen) BlkLen = ?n"
    using assms(1) by (simp add: minus_div_mult_eq_mod)
  have blk: "W' ! ?b = Q8Quantized BlkLen A (?b * BlkLen) ?n"
    using W'(3)[of ?b] assms(4) mdr n by simp
  have z: "Q8BlkData (W' ! ?b) ! i = 0" if "?n \<le> i" "i < BlkLen" for i
    unfolding blk using that by (simp add: Q8Quantized_def padded_def)
  have s: "(\<Sum>i < BlkLen. sint (Q8BlkData (W' ! ?b) ! i) * y i) =
        (\<Sum>i < ?n. sint (Q8BlkData (W' ! ?b) ! i) * y i)" for y :: "nat \<Rightarrow> int"
  proof (rule sum.mono_neutral_right)
    show "finite {..<BlkLen}" by simp
    show "{..<?n} \<subseteq> {..<BlkLen}" using assms(1) by (simp add: less_imp_le)
    show "\<forall>i \<in> {..<BlkLen} - {..<?n}. sint (Q8BlkData (W' ! ?b) ! i) * y i = 0"
      using z by auto
  qed
  show ?thesis using W'(1) z s blk by (intro exI[of _ W']) simp
qed





theorem QuantizeARow_CompInt8_padding_witness:
  "\<exists>W. QuantizeARow_CompInt8 16 (replicate 17 1) 17
          (replicate 2 \<lparr>Q8BlkScale = 9, Q8BlkData = replicate 16 7\<rparr>) = Inr W \<and>
       Q8BlkData (W ! 1) ! 1 = 0 \<and> Q8BlkData (W ! 1) ! 15 = 0"
proof -
  let ?W = "replicate 2 \<lparr>Q8BlkScale = 9, Q8BlkData = replicate 16 (7 :: 8 word)\<rparr>"
  have h: "0 < (16::nat)" "16 dvd (16::nat)" "\<not> (16::nat) dvd 17"
    "MlasDivRoundup 17 16 \<le> length ?W"
    "\<forall>b < length ?W. length (Q8BlkData (?W ! b)) = 16"
    by (simp_all add: MlasDivRoundup_def)
  obtain W where W: "QuantizeARow_CompInt8 16 (replicate 17 1) 17 ?W = Inr W"
    "\<And>i. (17::nat) mod 16 \<le> i \<and> i < 16 \<Longrightarrow> Q8BlkData (W ! (17 div 16)) ! i = 0"
    using QuantizeARow_CompInt8_padding [OF h, of "replicate 17 1"] by blast
  show ?thesis using W(1) W(2)[of 1] W(2)[of 15] by (intro exI[of _ W]) simp
qed

section \<open>The integer kernel at an input with zero-points in both nibbles\<close>

lemmas vector_defs = vld1q_s8_def vld1q_u8_def vld1_u8_def vdupq_n_u8_def vdup_n_u8_def vandq_u8_def
  vand_u8_def vshrq_n_u8_def vshr_n_u8_def vcombine_u8_def vget_low_u8_def vget_high_u8_def
  vreinterpretq_s8_u8_def vsubq_s8_def vdupq_n_s32_def vdotq_s32_def vcvtq_f32_s32_def
  vfmaq_f32_def vdupq_n_s8_def vdupq_n_f32_def

lemmas Example_defs = Example_Buffers_def Example_QuantA_def Example_QuantBData_def
  Example_QuantBScale_def Example_QuantBZeroPoint_def

lemma Example_subblks1x1: "a < 4 \<Longrightarrow> q \<le> 160 \<Longrightarrow>
   Compute1x1_BlkLenGreaterThan32_subblks Example_Buffers a 1 1 (0, q, x, y) =
     (64, q + 32, map (\<lambda>l. x ! l - 8) [0..<4], map (\<lambda>l. y ! l - 8) [0..<4])"
  by (simp add: Compute1x1_BlkLenGreaterThan32_subblks_def vector_defs Example_defs Let_def)

lemma Example_subloop1x1: "a < 4 \<Longrightarrow> q \<le> 160 \<Longrightarrow>
   Compute1x1_BlkLenGreaterThan32_subloop Example_Buffers a 1 1 2 0 (0, q, x, y) =
     (64, q + 32, map (\<lambda>l. x ! l - 8) [0..<4], map (\<lambda>l. y ! l - 8) [0..<4])"
  by (subst Compute1x1_BlkLenGreaterThan32_subloop.simps, simp add: Example_subblks1x1,
      subst Compute1x1_BlkLenGreaterThan32_subloop.simps, simp)

lemma Example_blk1x1: "a < 4 \<Longrightarrow> q \<le> 160 \<Longrightarrow> s < 6 \<Longrightarrow> zp < 3 \<Longrightarrow>
   Compute1x1_BlkLenGreaterThan32_blk True 64 Example_Buffers k (a, q, s, zp, x, y) =
     (a + 1, q + 32, s + 1, zp + (if even k then 0 else 1),
      map (\<lambda>l. x ! l - 8) [0..<4], map (\<lambda>l. y ! l - 8) [0..<4])"
proof -
  assume a: "a < 4" "q \<le> 160" "s < 6" "zp < 3"
  have z: "QuantBZeroPointBuf Example_Buffers ! zp AND 0x0F = 1" "QuantBScaleBuf Example_Buffers ! (s + 0) = 1"
    "Q8BlkScale (QuantABuf Example_Buffers ! a) = 1"
    using a by (simp_all add: Example_defs)
  show ?thesis
    unfolding Compute1x1_BlkLenGreaterThan32_blk_def Let_def prod.case z
    by (simp add: Example_subloop1x1[OF a(1,2)])
qed

lemma Example_tile1x1: "a \<le> 2 \<Longrightarrow> q \<le> 128 \<Longrightarrow> s \<le> 4 \<Longrightarrow> zp < 3 \<Longrightarrow>
  SQ4BitGemm_CompInt8_Compute1x1_BlkLenGreaterThan32 True 64 Example_Buffers a q s zp None C p 2 = C[p := - 128]"
proof -
  assume a: "a \<le> 2" "q \<le> 128" "s \<le> 4" "zp < 3"
  have u: "[0..<2] = [0, 1]" by (simp add: upt_conv_Cons)
  show ?thesis
    unfolding SQ4BitGemm_CompInt8_Compute1x1_BlkLenGreaterThan32_def u
    using a by (simp add: Example_blk1x1 StoreSum1x1_def vaddvq_f32_def)
qed


lemma Example_subblk2x2: "a0 < 4 \<Longrightarrow> a1 < 4 \<Longrightarrow> p0 \<le> 32 \<Longrightarrow> p1 \<le> 32 \<Longrightarrow> q + sb \<le> 176 \<Longrightarrow>
   z0 \<in> {1, 2} \<Longrightarrow> z1 \<in> {1, 2} \<Longrightarrow>
   Compute2x2_BlkLenGreaterThan16_subblk Example_Buffers sb a0 a1 z0 z1 1 1 1 1 i (p0, p1, q, w, x, y, z) =
     (p0 + 32, p1 + 32, q + 16,
      map (\<lambda>l. w ! l - 8 * real_of_int (uint z0)) [0..<4],
      map (\<lambda>l. x ! l - 8 * real_of_int (uint z1)) [0..<4],
      map (\<lambda>l. y ! l - 8 * real_of_int (uint z0)) [0..<4],
      map (\<lambda>l. z ! l - 8 * real_of_int (uint z1)) [0..<4])"
  by (auto simp add: Compute2x2_BlkLenGreaterThan16_subblk_def vector_defs Example_defs Let_def)


lemma LoadZeroPoint2x2_Example:
  "zp < 3 \<Longrightarrow> LoadZeroPoint2x2 True Example_Buffers zp k = (if even k then 1 else 2)"
  by (simp add: LoadZeroPoint2x2_def Example_defs)

lemma Example_blk2x2: "a + 2 < 4 \<Longrightarrow> q \<le> 96 \<Longrightarrow> s < 4 \<Longrightarrow> zp + sz < 3 \<Longrightarrow>
   Compute2x2_BlkLenGreaterThan16_blk True 64 Example_Buffers 2 64 2 sz k (a, q, s, zp, w, x, y, z) =
     (a + 1, q + 32, s + 1, zp + (if even k then 0 else 1),
      map (\<lambda>l. w ! l - (if even k then 16 else 32)) [0..<4],
      map (\<lambda>l. x ! l - (if even k then 16 else 32)) [0..<4],
      map (\<lambda>l. y ! l - (if even k then 16 else 32)) [0..<4],
      map (\<lambda>l. z ! l - (if even k then 16 else 32)) [0..<4])"
proof -
  assume a: "a + 2 < 4" "q \<le> 96" "s < 4" "zp + sz < 3"
  have z: "QuantBScaleBuf Example_Buffers ! s = 1" "QuantBScaleBuf Example_Buffers ! (s + 2) = 1"
    "Q8BlkScale (QuantABuf Example_Buffers ! a) = 1" "Q8BlkScale (QuantABuf Example_Buffers ! (a + 2)) = 1"
    using a by (simp_all add: Example_defs)
  have u: "[0..<2] = [0, 1]" by (simp add: upt_conv_Cons)
  show ?thesis
    unfolding Compute2x2_BlkLenGreaterThan16_blk_def Let_def prod.case z
    using a by (simp add: u Example_subblk2x2 LoadZeroPoint2x2_Example upt_4)
qed

lemma Example_tile2x2:
  "SQ4BitGemm_CompInt8_Compute2x2_BlkLenGreaterThan16 True 64 Example_Buffers 0 0 0 0 None C p 2 2 64 2 1 ldc =
     C[p := - 192, p + 1 := - 192, p + ldc := - 192, p + ldc + 1 := - 192]"
proof -
  have u: "[0..<2] = [0, 1]" by (simp add: upt_conv_Cons)
  show ?thesis
    unfolding SQ4BitGemm_CompInt8_Compute2x2_BlkLenGreaterThan16_def u
    by (simp add: Example_blk2x2 StoreSum2x2_def vaddvq_f32_def upt_4)
qed


lemma Example_BlockDot: "n < 3 \<Longrightarrow> m < 2 \<Longrightarrow> b < 2 \<Longrightarrow>
  CompInt8_BlockDot 64 Example_QuantA Example_QuantBData (Some Example_QuantBZeroPoint) 2 m n b
    = (if even b then - 64 else - 128)"
proof -
  assume a: "n < 3" "m < 2" "b < 2"
  have z: "QuantBZeroPointAt (Some Example_QuantBZeroPoint) 2 n b = (if even b then 1 else 2)"
    using a by (simp add: QuantBZeroPointAt_def Example_QuantBZeroPoint_def
        MlasQNBitZeroPointsForBlksSizeInBytes_def MlasDivRoundup_def Let_def)
  have blk: "m * 2 + b < 4" using a by simp
  have q: "PackedQuantBCode 32 Example_QuantBData ((n * 2 + b) * 64 + i) = 0" if "i < 64" for i
  proof -
    define x where "x = (n * 2 + b) * 64 + i"
    have "x < 384" using a that by (simp add: x_def)
    then have "x div 32 < 12" by simp
    moreover have "x mod 32 mod 16 < 16" by simp
    ultimately have "PackedQuantBByteIndex 32 x < 192"
      unfolding PackedQuantBByteIndex_def Let_def by simp
    then show ?thesis
      by (simp add: PackedQuantBCode_def Example_QuantBData_def Let_def x_def)
  qed
  have t: "sint (Q8BlkData (Example_QuantA ! (m * 2 + b)) ! i) = 1" if "i < 64" for i
    using blk that by (simp add: Example_QuantA_def)
  have "CompInt8_BlockDot 64 Example_QuantA Example_QuantBData (Some Example_QuantBZeroPoint) 2 m n b
      = (\<Sum>i \<leftarrow> [0..<64]. - (if even b then 1 else 2))"
    unfolding CompInt8_BlockDot_def z
  proof (intro arg_cong[where f = sum_list] map_cong refl)
    fix i assume "i \<in> set [0..<64]"
    then have i: "i < 64" by simp
    have p: "PackSubBlkLen CompInt8 64 = 32" by (simp add: PackSubBlkLen_def)
    show "sint (Q8BlkData (Example_QuantA ! (m * 2 + b)) ! i) *
           (uint (PackedQuantBCode (PackSubBlkLen CompInt8 64) Example_QuantBData
                    ((n * 2 + b) * 64 + i)) - uint (if even b then 1 else 2 :: byte)) =
          - (if even b then 1 else 2)"
      unfolding p q[OF i] t[OF i] by simp
  qed
  also have "\<dots> = (if even b then - 64 else - 128)" by (simp add: sum_list_triv)
  finally show ?thesis .
qed

lemma Example_Reference: "n < 3 \<Longrightarrow> m < 2 \<Longrightarrow>
  CompInt8_Reference 64 Example_QuantA Example_QuantBData Example_QuantBScale
    (Some Example_QuantBZeroPoint) 2 None m n = - 192"
proof -
  assume a: "n < 3" "m < 2"
  have u: "[0..<2] = [0, 1]" by (simp add: upt_conv_Cons)
  have s: "Q8BlkScale (Example_QuantA ! (m * 2 + b)) = 1" "Example_QuantBScale ! (n * 2 + b) = 1"
    if "b < 2" for b
    using a that by (simp_all add: Example_QuantA_def Example_QuantBScale_def)
  show ?thesis
    unfolding CompInt8_Reference_def u using a s[of 0] s[of 1]
    by (simp add: Example_BlockDot)
qed


lemma Example_kernel:
  "SQ4BitGemmKernel_CompInt8_BlkLenGreaterThan32 True 64 Example_Buffers [0, 0, 0, 0, 0, 0] 2 3 2 3 None
     = [- 192, - 192, - 128, - 192, - 192, - 128]"
proof -
  have s: "MlasQNBitBlkDataSizeInBytes 4 (64::nat) = 32" "MlasQNBitZeroPointsForBlksSizeInBytes 2 = 1"
    by (simp_all add: MlasQNBitBlkDataSizeInBytes_def MlasQNBitZeroPointsForBlksSizeInBytes_def
        MlasDivRoundup_def)
  have tile: "SQ4BitGemm_CompInt8_Compute2x2_BlkLenGreaterThan16 True 64 Example_Buffers 0 0 0 0 None
      C p 2 2 64 2 (Suc 0) ldc =
     C[p := - 192, p + 1 := - 192, p + ldc := - 192, p + ldc + 1 := - 192]" for C p ldc
    using Example_tile2x2[of C p ldc] by simp
  have "SQ4BitGemmKernel_CompInt8_BlkLenGreaterThan32 True 64 Example_Buffers [0, 0, 0, 0, 0, 0]
      2 3 2 3 None =
    [0, 0, 0, 0, 0, 0][0 := - 192, 1 := - 192, 3 := - 192, 4 := - 192, 2 := - 128, 5 := - 128]"
    unfolding SQ4BitGemmKernel_CompInt8_BlkLenGreaterThan32_def Let_def s CompInt8_Loops_def
    by (simp add: CompInt8_Rows.simps CompInt8_RowPair_def CompInt8_Cols2x2.simps tile Example_tile1x1)
  also have "\<dots> = [- 192, - 192, - 128, - 192, - 192, - 128]"
    by (simp add: eval_nat_numeral)
  finally show ?thesis .
qed

text \<open>
  Claim C10. \<open>SQ4BitGemmKernel_CompInt8\<close> returns \<open>CountM\<close>, whatever its arguments.
\<close>

theorem SQ4BitGemmKernel_CompInt8_returns_CountM:
  "snd (SQ4BitGemmKernel_CompInt8 BlkLen QuantA QuantBData QuantBScale QuantBZeroPoint C
          CountM CountN CountK BlockCountK ldc Bias) = CountM"
  by (simp add: SQ4BitGemmKernel_CompInt8_def Let_def)

text \<open>
  Claim C3, at the input above. The tile of one element for blocks longer than 32 takes
  the low nibble of the zero-point byte for block 1 as well: it computes -128, the value
  that the zero-point 1 gives for both blocks, where the zero-point of block 1 is the high
  nibble 2 and the value is -192.
\<close>

theorem Compute1x1_BlkLenGreaterThan32_low_nibble:
  "SQ4BitGemm_CompInt8_Compute1x1_BlkLenGreaterThan32 True 64 Example_Buffers 0 0 0 0 None [0] 0 2
     = [- 128] \<and>
   QuantBZeroPointAt (Some Example_QuantBZeroPoint) 2 0 1 = 2 \<and>
   CompInt8_Reference 64 Example_QuantA Example_QuantBData Example_QuantBScale
     (Some Example_QuantBZeroPoint) 2 None 0 0 = - 192"
proof -
  have "QuantBZeroPointAt (Some Example_QuantBZeroPoint) 2 0 1 = 2"
    by (simp add: QuantBZeroPointAt_def Example_QuantBZeroPoint_def
        MlasQNBitZeroPointsForBlksSizeInBytes_def MlasDivRoundup_def Let_def)
  then show ?thesis
    using Example_tile1x1[of 0 0 0 0 "[0]" 0] Example_Reference[of 0 0] by simp
qed

text \<open>
  Claim C2, at the input above with two rows and three columns. The rows are equal and the
  columns are equal, and every element is to be -192. The elements of the tile of two rows
  and two columns are -192; the elements of the last column, computed by tiles of one
  element, are -128.
\<close>

theorem SQ4BitGemmKernel_CompInt8_remainder_tile:
  "fst (SQ4BitGemmKernel_CompInt8 64 Example_QuantA Example_QuantBData Example_QuantBScale
          (Some Example_QuantBZeroPoint) [0, 0, 0, 0, 0, 0] 2 3 128 2 3 None)
     = [- 192, - 192, - 128, - 192, - 192, - 128] \<and>
   CompInt8_Reference 64 Example_QuantA Example_QuantBData Example_QuantBScale
     (Some Example_QuantBZeroPoint) 2 None 0 1 = - 192 \<and>
   CompInt8_Reference 64 Example_QuantA Example_QuantBData Example_QuantBScale
     (Some Example_QuantBZeroPoint) 2 None 0 2 = - 192"
proof -
  have "fst (SQ4BitGemmKernel_CompInt8 64 Example_QuantA Example_QuantBData Example_QuantBScale
          (Some Example_QuantBZeroPoint) [0, 0, 0, 0, 0, 0] 2 3 128 2 3 None)
     = SQ4BitGemmKernel_CompInt8_BlkLenGreaterThan32 True 64 Example_Buffers [0, 0, 0, 0, 0, 0] 2 3 2 3 None"
    by (simp add: SQ4BitGemmKernel_CompInt8_def SQ4BitGemmKernel_CompInt8_DispatchOnBlkLen_def
        Example_Buffers_def Let_def)
  then show ?thesis
    using Example_kernel Example_Reference[of 1 0] Example_Reference[of 2 0] by simp
qed

subsection \<open>The float kernel\<close>



lemma unat_low_nibble: "unat ((x::byte) AND 0x0F) < 16"
proof -
  have "unat (take_bit 4 x) < 2 ^ 4"
    by (simp only: unsigned_take_bit_eq) (rule take_bit_nat_less_exp)
  then show ?thesis by (simp add: and_15_take_bit)
qed

lemma unat_high_nibble: "unat (drop_bit 4 (x::byte)) < 16"
proof -
  have "unat x < 256" using unsigned_less[of x] by simp
  moreover have "unat (drop_bit 4 x) = drop_bit 4 (unat x)" by (rule unat_drop_bit_eq)
  ultimately show ?thesis by (simp only: drop_bit_eq_div) simp
qed

lemma unat_QuantBNibble: "unat (QuantBNibble D p e) < 16"
  by (simp add: QuantBNibble_def unat_low_nibble unat_high_nibble)












lemma subblk_length:
  "length (ComputeDotProducts_subblk NCols HZ M a QB stride scale offset k len kidx acc) = NCols"
  "i < NCols \<Longrightarrow> length (ComputeDotProducts_subblk NCols HZ M a QB stride scale offset k len kidx acc ! i) = 4"
  unfolding ComputeDotProducts_subblk_def Let_def upt_4
  by (simp_all add: vfmaq_f32_def)







lemma subloop_length:
  "length acc = NCols \<Longrightarrow>
   length (ComputeDotProducts_subloop NCols HZ M a QB stride scale offset k len kidx acc) = NCols"
proof (induction NCols HZ M a QB stride scale offset k len kidx acc
       rule: ComputeDotProducts_subloop.induct)
  case (1 NCols HZ M a QB stride scale offset k len kidx acc)
  then show ?case
    by (subst ComputeDotProducts_subloop.simps) (simp add: subblk_length)
qed



lemma blk_length:
  "length acc = NCols \<Longrightarrow>
   length (ComputeDotProducts_blk NCols HZ BlkLen M a zcol CountK stride sstride zstride
             k QB QS zi acc) = NCols"
  by (simp add: ComputeDotProducts_blk_def Let_def subloop_length)


lemma blkloop_length:
  "length acc = NCols \<Longrightarrow>
   length (ComputeDotProducts_blkloop NCols HZ BlkLen M a zcol CountK stride sstride zstride
             k QB QS zi acc) = NCols"
proof (induction NCols HZ BlkLen M a zcol CountK stride sstride zstride k QB QS zi acc
       rule: ComputeDotProducts_blkloop.induct)
  case (1 NCols HZ BlkLen M a zcol CountK stride sstride zstride k QB QS zi acc)
  then show ?case
    by (subst ComputeDotProducts_blkloop.simps) (simp add: blk_length)
qed


lemma FoldAccumulators_eq:
  "FoldAccumulators a0 a1 a2 a3 = [vaddvq_f32 a0, vaddvq_f32 a1, vaddvq_f32 a2, vaddvq_f32 a3]"
  by (simp add: FoldAccumulators_def Transpose4x4_def Let_def vaddq_f32_def vaddvq_f32_def
        vzip1q_f32_def vzip2q_f32_def vzip1q_f64_def vzip2q_f64_def
        vreinterpretq_f32_f64_def vreinterpretq_f64_f32_def upt_4)

lemma vst1q_f32_length [simp]: "length (vst1q_f32 dst p v) = length dst"
  by (simp add: vst1q_f32_def)

lemma vst1q_f32_eq: "vst1q_f32 dst p v = fold (\<lambda>l d. d[p + l := v ! l]) [0..<4] dst"
  by (simp add: vst1q_f32_def)

lemma store_bias:
  "(let C' = C[p := x] in case bp of None \<Rightarrow> C' | Some b \<Rightarrow> C'[p := C' ! p + y b])
     = C[p := (x::real) + (case bp of None \<Rightarrow> 0 | Some b \<Rightarrow> y b)]"
  by (cases bp; cases "p < length C") (simp_all add: list_update_beyond)

lemma ComputeDotProducts_fold:
  "ComputeDotProducts_BlkBitWidth4_CompFp32 NCols HZ BlkLen M a dcol scol zcol C SumPtr
     CountK stride sstride zstride BiasPtr
   = fold (\<lambda>i C. C[SumPtr + i :=
        vaddvq_f32 (ComputeDotProducts_blkloop NCols HZ BlkLen M a zcol CountK stride sstride
                      zstride 0 dcol scol 0 (zero_f32x4 NCols) ! i)
        + (case BiasPtr of None \<Rightarrow> 0 | Some b \<Rightarrow> BiasBuf M ! (b + i))]) [0..<NCols] C"
proof (cases "NCols = 4")
  case False
  then show ?thesis
    unfolding ComputeDotProducts_BlkBitWidth4_CompFp32_def store_bias
    by (simp add: Let_def)
next
  case True
  show ?thesis
    unfolding ComputeDotProducts_BlkBitWidth4_CompFp32_def True
    by (cases BiasPtr)
       (simp_all add: Let_def FoldAccumulators_eq vst1q_f32_eq upt_4 vaddq_f32_def vld1q_f32_def)
qed

lemma ComputeDotProducts_length [simp]:
  "length (ComputeDotProducts_BlkBitWidth4_CompFp32 NCols HZ BlkLen M a dcol scol zcol C SumPtr
             CountK stride sstride zstride BiasPtr) = length C"
  by (simp only: ComputeDotProducts_fold fold_store_length)













subsection \<open>The bias\<close>




































end
